theory Spec2Isabelle
  imports Complex_Main
begin

section \<open>JavaScript numbers\<close>

text \<open>
  A JavaScript number is a binary64 double. A finite double is modelled by its real
  value, and every arithmetic operation of the source rounds its exact result to the
  nearest double, a tie going to the even significand: \<open>fl\<close>. The value \<open>x\<close> with
  \<open>2^e \<le> |x| < 2^(e+1)\<close> is rounded to a multiple of \<open>2^(e-52)\<close>.

  The exponent of \<open>fl\<close> is not bounded. Below, gradual underflow (magnitudes under
  \<open>2^-1022\<close>) is not modelled: the program's values are pixel coordinates, angles and
  slider values. Above, a result of magnitude \<open>2^1024\<close> or more is an infinity; it can
  arise where \<open>parseInt\<close> reads a long run of digits, and \<open>toNumber\<close> makes it so in
  \<open>parseInt\<close> and in the arithmetic on its result. The two zeros are not told apart:
  the program never divides by one, and the arguments of \<open>Math.atan2\<close> are differences,
  which are \<open>+0\<close> when they are zero.
\<close>

definition pow2 :: "int \<Rightarrow> real" where
  "pow2 e = (if 0 \<le> e then 2 ^ nat e else 1 / 2 ^ nat (- e))"

definition roundEven :: "real \<Rightarrow> int" where
  "roundEven r =
     (let f = \<lfloor>r\<rfloor>
      in if r - of_int f < 1 / 2 then f
         else if 1 / 2 < r - of_int f then f + 1
         else if even f then f else f + 1)"

definition expo :: "real \<Rightarrow> int" where
  "expo x = \<lfloor>log 2 \<bar>x\<bar>\<rfloor>"

definition fl :: "real \<Rightarrow> real" where
  "fl x =
     (if x = 0 then 0
      else of_int (roundEven (x / pow2 (expo x - 52))) * pow2 (expo x - 52))"

datatype jsnum = Num real | NaN | PosInf | NegInf

definition toNumber :: "real \<Rightarrow> jsnum" where
  "toNumber x =
     (if 2 ^ 1024 \<le> fl x then PosInf
      else if fl x \<le> - (2 ^ 1024) then NegInf
      else Num (fl x))"

text \<open>The sign of a number that is not \<open>NaN\<close>: -1, 0 or 1.\<close>

fun signOf :: "jsnum \<Rightarrow> int" where
  "signOf (Num a) = (if a < 0 then - 1 else if a = 0 then 0 else 1)"
| "signOf PosInf = 1"
| "signOf NegInf = - 1"
| "signOf NaN = 0"

fun js_add :: "jsnum \<Rightarrow> jsnum \<Rightarrow> jsnum" where
  "js_add (Num a) (Num b) = toNumber (a + b)"
| "js_add NaN _ = NaN"
| "js_add _ NaN = NaN"
| "js_add PosInf NegInf = NaN"
| "js_add NegInf PosInf = NaN"
| "js_add PosInf _ = PosInf"
| "js_add _ PosInf = PosInf"
| "js_add NegInf _ = NegInf"
| "js_add _ NegInf = NegInf"

fun js_mul :: "jsnum \<Rightarrow> jsnum \<Rightarrow> jsnum" where
  "js_mul (Num a) (Num b) = toNumber (a * b)"
| "js_mul NaN _ = NaN"
| "js_mul _ NaN = NaN"
| "js_mul x y =
     (if signOf x * signOf y = 0 then NaN
      else if 0 < signOf x * signOf y then PosInf else NegInf)"

text \<open>\<open>a !== b\<close> on numbers: \<open>NaN\<close> differs from everything, itself included.\<close>

fun js_strict_neq :: "jsnum \<Rightarrow> jsnum \<Rightarrow> bool" where
  "js_strict_neq (Num a) (Num b) = (a \<noteq> b)"
| "js_strict_neq PosInf PosInf = False"
| "js_strict_neq NegInf NegInf = False"
| "js_strict_neq _ _ = True"

text \<open>\<open>x >= 0\<close> on numbers: every comparison with \<open>NaN\<close> is false.\<close>

fun js_nonneg :: "jsnum \<Rightarrow> bool" where
  "js_nonneg (Num a) = (0 \<le> a)"
| "js_nonneg PosInf = True"
| "js_nonneg NegInf = False"
| "js_nonneg NaN = False"

text \<open>\<open>Math.PI\<close>, the double nearest to pi, and the literal \<open>0.1\<close>.\<close>

definition Math_PI :: real where
  "Math_PI = 884279719003555 / 2 ^ 48"

definition literal_0_1 :: real where
  "literal_0_1 = fl (1 / 10)"

text \<open>
  \<open>Math.round\<close>: the nearest integer, a tie going up. \<open>Math.round\<close>, \<open>Math.ceil\<close> and
  \<open>%\<close> are exact on doubles: their results need no rounding.
\<close>

definition Math_round :: "real \<Rightarrow> int" where
  "Math_round x = \<lfloor>x + 1 / 2\<rfloor>"

text \<open>\<open>a % n\<close>: the remainder of the division truncated towards zero (sign of \<open>a\<close>).\<close>

definition js_trunc :: "real \<Rightarrow> int" where
  "js_trunc x = (if 0 \<le> x then \<lfloor>x\<rfloor> else \<lceil>x\<rceil>)"

definition js_rem :: "real \<Rightarrow> real \<Rightarrow> real" where
  "js_rem a n = a - n * of_int (js_trunc (a / n))"

text \<open>
  The function that \<open>Math.atan2(y, x)\<close> approximates: the angle in \<open>(-pi, pi]\<close> of the
  point with abscissa \<open>x\<close> and ordinate \<open>y\<close>; 0 at the origin.
\<close>

definition atan2 :: "real \<Rightarrow> real \<Rightarrow> real" where
  "atan2 y x =
     (if 0 < x then arctan (y / x)
      else if x < 0 \<and> 0 \<le> y then arctan (y / x) + pi
      else if x < 0 then arctan (y / x) - pi
      else if 0 < y then pi / 2
      else if y < 0 then - (pi / 2)
      else 0)"

subsection \<open>parseInt(string, 10)\<close>

text \<open>
  A string is its list of UTF-16 code units. \<open>parseInt\<close> skips leading white space
  (the white space and line terminator characters of the language), reads an optional
  sign, then the longest run of decimal digits; with no digit the result is \<open>NaN\<close>.
  Whatever follows the digits is ignored. (With radix 10 given, a \<open>0x\<close> prefix is not
  special.) The value of the digits is rounded to a double, and is an infinity when it
  is too large for one. (For a run of more than 20 digits the language lets an engine
  replace the digits after the 20th by zeros before it rounds; the engines round the
  value of all the digits, and so does the model.)
\<close>

type_synonym jsstring = "nat list"

definition isWhiteSpace :: "nat \<Rightarrow> bool" where
  "isWhiteSpace c \<longleftrightarrow>
     c \<in> {0x09, 0x0A, 0x0B, 0x0C, 0x0D, 0x20, 0xA0, 0x1680, 0x2028, 0x2029, 0x202F,
          0x205F, 0x3000, 0xFEFF} \<or>
     (0x2000 \<le> c \<and> c \<le> 0x200A)"

definition isDigit :: "nat \<Rightarrow> bool" where
  "isDigit c \<longleftrightarrow> 0x30 \<le> c \<and> c \<le> 0x39"

definition digitVal :: "nat \<Rightarrow> int" where
  "digitVal c = int c - 0x30"

fun digitsValue :: "int \<Rightarrow> jsstring \<Rightarrow> int" where
  "digitsValue acc [] = acc"
| "digitsValue acc (c # cs) = digitsValue (acc * 10 + digitVal c) cs"

definition parseInt :: "jsstring \<Rightarrow> jsnum" where
  "parseInt s =
     (let S = dropWhile isWhiteSpace s;
          sign = (case S of c # _ \<Rightarrow> if c = 0x2D then - 1 else 1 | [] \<Rightarrow> 1);
          S' = (case S of c # r \<Rightarrow> if c = 0x2D \<or> c = 0x2B then r else S | [] \<Rightarrow> S);
          Z = takeWhile isDigit S'
      in if Z = [] then NaN else toNumber (of_int (sign * digitsValue 0 Z)))"

section \<open>Program state\<close>

text \<open>The \<open>THREE.AmbientLight\<close> object: its colour and intensity.\<close>

record ambient_light =
  color :: nat
  intensity :: jsnum

datatype scene_object = PlaneMesh | SphereMesh | Light ambient_light

text \<open>The one function the script ever assigns to \<open>oninput\<close>.\<close>

datatype handler = IntensityHandler

text \<open>
  The host the script runs on. Of the page: the offset of \<open>#circle\<close> (\<open>None\<close> when the
  element is missing, so that jQuery's \<open>offset()\<close> is \<open>undefined\<close>), the size of
  \<open>#slider\<close>, and whether the element with id \<open>lightintesity\<close> exists. Of the engine:
  its \<open>Math.sin\<close>, \<open>Math.cos\<close> and \<open>Math.atan2\<close>, whose results the language leaves to
  the implementation.
\<close>

record host =
  circleOffset :: "(real \<times> real) option"
  sliderWidth :: real
  sliderHeight :: real
  hasIntensitySlider :: bool
  Math_sin :: "real \<Rightarrow> real"
  Math_cos :: "real \<Rightarrow> real"
  Math_atan2 :: "real \<Rightarrow> real \<Rightarrow> real"

text \<open>
  What is assumed of an engine where a result depends on it: on the arguments the
  program passes, \<open>Math.sin\<close> and \<open>Math.cos\<close> are within \<open>2^-20\<close> of the sine and the
  cosine, and \<open>Math.atan2\<close> is within \<open>2^-20\<close> of \<open>atan2\<close> and no larger in absolute
  value than \<open>Math.PI\<close>. (The error of an engine is some \<open>2^-52\<close>.)
\<close>

definition libmError :: real where
  "libmError = 1 / 2 ^ 20"

definition accurate :: "host \<Rightarrow> bool" where
  "accurate p \<longleftrightarrow>
     (\<forall>x. 0 \<le> x \<and> x \<le> 7 \<longrightarrow>
          \<bar>Math_sin p x - sin x\<bar> \<le> libmError \<and> \<bar>Math_cos p x - cos x\<bar> \<le> libmError) \<and>
     (\<forall>y x. \<bar>Math_atan2 p y x - atan2 y x\<bar> \<le> libmError \<and> \<bar>Math_atan2 p y x\<bar> \<le> Math_PI)"

text \<open>
  The module's variables (\<open>scene\<close>, \<open>light\<close>, \<open>lightColor\<close>, \<open>lightIntensity\<close>), the
  variables closed over by the handlers of \<open>initColorControl\<close> (\<open>deg\<close>, \<open>mdown\<close>,
  \<open>elPos\<close>), what the script has written to the page (the styles of \<open>#circle\<close> and
  \<open>#slider\<close>, the value of the \<open>angle\<close> input), the \<open>oninput\<close> property of the
  intensity slider, and whether the render loop has been requested.
\<close>

record state =
  scene :: "scene_object list"
  light :: "ambient_light option"
  lightColor :: nat
  lightIntensity :: jsnum
  deg :: real
  mdown :: bool
  elPos :: "real \<times> real"
  circleBackground :: string
  circleBoxShadow :: string
  angleInput :: int
  sliderLeft :: real
  sliderTop :: real
  sliderRotate :: real
  oninput :: "handler option"
  renderRequested :: bool

datatype error = TypeError

definition ORBIT_RADIUS :: real where
  "ORBIT_RADIUS = 27"

section \<open>The light\<close>

definition removeFromScene :: "ambient_light option \<Rightarrow> scene_object list \<Rightarrow> scene_object list" where
  "removeFromScene l sc = (case l of None \<Rightarrow> sc | Some x \<Rightarrow> remove1 (Light x) sc)"

definition initLight :: "state \<Rightarrow> state" where
  "initLight s =
     (let l = \<lparr>color = lightColor s, intensity = lightIntensity s\<rparr>
      in s\<lparr>light := Some l, scene := scene s @ [Light l]\<rparr>)"

definition updateLight :: "state \<Rightarrow> state" where
  "updateLight s =
     (let sc = removeFromScene (light s) (scene s);
          l = \<lparr>color = lightColor s, intensity = lightIntensity s\<rparr>
      in s\<lparr>light := Some l, scene := sc @ [Light l]\<rparr>)"

section \<open>The colour control\<close>

text \<open>
  The three locals \<open>colorHex\<close>, \<open>cssColor\<close>, \<open>boxShadowColor\<close> of
  \<open>setLightAndUIFromAngle\<close> after its chain of comparisons.
\<close>

definition angleColors :: "real \<Rightarrow> nat \<times> string \<times> string" where
  "angleColors d =
     (if d < 40 then (0xFFFFFF, ''white'', ''white'')
      else if d < 80 then (0xadd8e6, ''lightblue'', ''lightblue'')
      else if d < 120 then (0xF78787, ''red'', ''red'')
      else if d < 160 then (0x90EE90, ''lightgreen'', ''lightgreen'')
      else if d < 200 then (0xffff00, ''yellow'', ''yellow'')
      else if d < 240 then (0xffa500, ''orange'', ''orange'')
      else if d < 280 then (0xa52a2a, ''brown'', ''brown'')
      else if d < 320 then (0xa52a2a, ''purple'', ''purple'')
      else if d \<le> 360 then (0xcc6699, ''#cc6699'', ''pink'')
      else (0xFFFFFF, ''white'', ''white''))"

definition setLightAndUIFromAngle :: "real \<Rightarrow> state \<Rightarrow> state" where
  "setLightAndUIFromAngle d s =
     (case angleColors d of (colorHex, cssColor, boxShadowColor) \<Rightarrow>
        (updateLight (s\<lparr>lightColor := colorHex\<rparr>))
          \<lparr>circleBackground := cssColor,
           circleBoxShadow := ''1px 1px 5px 3px '' @ boxShadowColor,
           angleInput := \<lceil>d\<rceil>\<rparr>)"

text \<open>The locals \<open>X\<close> and \<open>Y\<close> of \<open>positionSlider\<close>.\<close>

definition sliderXY :: "host \<Rightarrow> real \<Rightarrow> int \<times> int" where
  "sliderXY p d =
     (let rad = fl (fl (d * Math_PI) / 180)
      in (Math_round (fl (ORBIT_RADIUS * Math_sin p rad)),
          Math_round (fl (ORBIT_RADIUS * - Math_cos p rad))))"

definition positionSlider :: "host \<Rightarrow> real \<Rightarrow> state \<Rightarrow> state" where
  "positionSlider p d s =
     (let sliderW2 = fl (sliderWidth p / 2);
          sliderH2 = fl (sliderHeight p / 2)
      in case sliderXY p d of (X, Y) \<Rightarrow>
           s\<lparr>sliderLeft := fl (fl (of_int X + ORBIT_RADIUS) - sliderW2),
             sliderTop := fl (fl (of_int Y + ORBIT_RADIUS) - sliderH2),
             sliderRotate := d\<rparr>)"

text \<open>
  The angle the \<open>mousemove\<close> handler computes from \<open>mPos\<close>, the pointer's position
  relative to the top left corner of the circle.
\<close>

definition angleFor :: "host \<Rightarrow> real \<times> real \<Rightarrow> real" where
  "angleFor p mPos =
     (let atan = Math_atan2 p (fl (fst mPos - ORBIT_RADIUS)) (fl (snd mPos - ORBIT_RADIUS))
      in js_rem (fl (fl (- atan / fl (Math_PI / 180)) + 180)) 360)"

definition onTick :: "host \<Rightarrow> state \<Rightarrow> state" where
  "onTick p s =
     (let d = js_rem (fl (deg s + 1)) 360
      in setLightAndUIFromAngle d (positionSlider p d (s\<lparr>deg := d\<rparr>)))"

definition onMouseMove :: "host \<Rightarrow> real \<Rightarrow> real \<Rightarrow> state \<Rightarrow> state" where
  "onMouseMove p clientX clientY s =
     (if mdown s then
        (let mPos = (fl (clientX - fst (elPos s)), fl (clientY - snd (elPos s)));
             d = angleFor p mPos
         in setLightAndUIFromAngle d (positionSlider p d (s\<lparr>deg := d\<rparr>)))
      else s)"

definition initColorControl :: "host \<Rightarrow> state \<Rightarrow> error + state" where
  "initColorControl p s =
     (case circleOffset p of
        None \<Rightarrow> Inl TypeError
      | Some elP \<Rightarrow>
          Inr (positionSlider p 0
                 (setLightAndUIFromAngle 0 (s\<lparr>deg := 0, mdown := False, elPos := elP\<rparr>))))"

section \<open>The intensity control\<close>

definition intensityOnInput :: "jsstring \<Rightarrow> state \<Rightarrow> state" where
  "intensityOnInput v s =
     (let sliderValue = parseInt v;
          newIntensity = (if js_strict_neq sliderValue (Num 1)
                          then js_add (Num 1) (js_mul sliderValue (Num literal_0_1))
                          else sliderValue)
      in updateLight (s\<lparr>lightIntensity := newIntensity\<rparr>))"

text \<open>
  Assigning a property of \<open>null\<close> throws; \<open>initIntensityControl\<close> assigns \<open>oninput\<close>
  only under its guard.
\<close>

definition assignOnInput :: "bool \<Rightarrow> handler \<Rightarrow> state \<Rightarrow> error + state" where
  "assignOnInput element h s = (if element then Inr (s\<lparr>oninput := Some h\<rparr>) else Inl TypeError)"

definition initIntensityControl :: "host \<Rightarrow> state \<Rightarrow> error + state" where
  "initIntensityControl p s =
     (let intensitySlider = hasIntensitySlider p
      in if intensitySlider then assignOnInput intensitySlider IntensityHandler s else Inr s)"

section \<open>main and the events that follow it\<close>

text \<open>The state when the module is loaded, before \<open>main\<close> runs.\<close>

definition loaded :: state where
  "loaded =
     \<lparr>scene = [], light = None, lightColor = 0xFFFFFF, lightIntensity = Num 1,
      deg = 0, mdown = False, elPos = (0, 0),
      circleBackground = [], circleBoxShadow = [], angleInput = 0,
      sliderLeft = 0, sliderTop = 0, sliderRotate = 0,
      oninput = None, renderRequested = False\<rparr>"

definition initThree :: "state \<Rightarrow> state" where
  "initThree s = s\<lparr>scene := []\<rparr>"

definition createPlane :: "state \<Rightarrow> state" where
  "createPlane s = s\<lparr>scene := scene s @ [PlaneMesh]\<rparr>"

definition createSphere :: "state \<Rightarrow> state" where
  "createSphere s = s\<lparr>scene := scene s @ [SphereMesh]\<rparr>"

definition main :: "host \<Rightarrow> error + state" where
  "main p =
     (case initColorControl p (initLight (createSphere (createPlane (initThree loaded)))) of
        Inl e \<Rightarrow> Inl e
      | Inr s \<Rightarrow>
          (case initIntensityControl p s of
             Inl e \<Rightarrow> Inl e
           | Inr s' \<Rightarrow> Inr (s'\<lparr>renderRequested := True\<rparr>)))"

datatype event =
    Tick
  | MouseDown
  | MouseUp
  | MouseLeave
  | MouseMove real real
  | Input jsstring

text \<open>
  One turn of the event loop. An \<open>input\<close> event of the intensity slider runs the
  function in its \<open>oninput\<close> property, if there is one.
\<close>

fun step :: "host \<Rightarrow> state \<Rightarrow> event \<Rightarrow> state" where
  "step p s Tick = onTick p s"
| "step p s MouseDown = s\<lparr>mdown := True\<rparr>"
| "step p s MouseUp = s\<lparr>mdown := False\<rparr>"
| "step p s MouseLeave = s\<lparr>mdown := False\<rparr>"
| "step p s (MouseMove clientX clientY) = onMouseMove p clientX clientY s"
| "step p s (Input v) =
     (case oninput s of None \<Rightarrow> s | Some IntensityHandler \<Rightarrow> intensityOnInput v s)"

definition run :: "host \<Rightarrow> state \<Rightarrow> event list \<Rightarrow> state" where
  "run p s es = foldl (step p) s es"

section \<open>The band table and the example host\<close>

text \<open>
  The table of colour bands: the upper bounds the specification names, 40 to 360 degrees,
  each with the light colour, the display colour and the glow colour that the source
  gives the band below that bound.
\<close>

definition colorBands :: "(real \<times> nat \<times> string \<times> string) list" where
  "colorBands =
     [(40, 0xFFFFFF, ''white'', ''white''),
      (80, 0xadd8e6, ''lightblue'', ''lightblue''),
      (120, 0xF78787, ''red'', ''red''),
      (160, 0x90EE90, ''lightgreen'', ''lightgreen''),
      (200, 0xffff00, ''yellow'', ''yellow''),
      (240, 0xffa500, ''orange'', ''orange''),
      (280, 0xa52a2a, ''brown'', ''brown''),
      (320, 0xa52a2a, ''purple'', ''purple''),
      (360, 0xcc6699, ''#cc6699'', ''pink'')]"

text \<open>
  The band of an angle in the specification's words: the first band whose upper bound is
  strictly greater than the angle, and the last band when there is none (at 360).
\<close>

definition bandFor :: "real \<Rightarrow> nat \<times> string \<times> string" where
  "bandFor d =
     (case find (\<lambda>b. d < fst b) colorBands of
        Some b \<Rightarrow> snd b
      | None \<Rightarrow> snd (last colorBands))"

text \<open>The light colours of the bands.\<close>

definition bandColorValues :: "nat list" where
  "bandColorValues = map (\<lambda>b. fst (snd b)) colorBands"

text \<open>
  An event is in range when it is not an input of the intensity slider, or is one whose
  value \<open>parseInt\<close> reads as a number from \<open>-10\<close> up (the slider range 0 to 10 that the
  comment in \<open>initIntensityControl\<close> names lies within it).
\<close>

definition rangeInput :: "event \<Rightarrow> bool" where
  "rangeInput e =
     (case e of
        Input v \<Rightarrow>
          (case parseInt v of Num x \<Rightarrow> - 10 \<le> x | PosInf \<Rightarrow> True | _ \<Rightarrow> False)
      | _ \<Rightarrow> True)"

text \<open>The code units of a string of ASCII characters.\<close>

definition utf16 :: "string \<Rightarrow> jsstring" where
  "utf16 s = map of_char s"

text \<open>
  A host with all the elements of the page, used for concrete runs. Its \<open>Math.sin\<close>,
  \<open>Math.cos\<close> and \<open>Math.atan2\<close> return the double nearest to the sine, the cosine and
  \<open>atan2\<close>, the last one cut off at \<open>Math.PI\<close>.
\<close>

definition exampleHost :: host where
  "exampleHost =
     \<lparr>circleOffset = Some (100, 50), sliderWidth = 10, sliderHeight = 10,
      hasIntensitySlider = True,
      Math_sin = (\<lambda>x. fl (sin x)), Math_cos = (\<lambda>x. fl (cos x)),
      Math_atan2 = (\<lambda>y x. max (- Math_PI) (min Math_PI (fl (atan2 y x))))\<rparr>"

section \<open>Rounding to the nearest double\<close>

lemma pow2_powr: "pow2 e = 2 powr (real_of_int e)"
  by (simp add: pow2_def powr_int)

lemma pow2_pos: "0 < pow2 e"
  by (simp add: pow2_powr)

lemma pow2_add: "pow2 (a + b) = pow2 a * pow2 b"
  by (simp add: pow2_powr powr_add)

lemma pow2_mono: "a \<le> b \<Longrightarrow> pow2 a \<le> pow2 b"
  by (simp add: pow2_powr powr_mono)

lemma pow2_Suc: "pow2 (e + 1) = 2 * pow2 e"
  by (simp add: pow2_add) (simp add: pow2_def)

lemma pow2_diff_int: "b \<le> a \<Longrightarrow> pow2 a / pow2 b = of_int (2 ^ nat (a - b))"
proof -
  assume ba: "b \<le> a"
  have "pow2 a = pow2 ((a - b) + b)" by simp
  also have "\<dots> = pow2 (a - b) * pow2 b" by (rule pow2_add)
  also have "pow2 (a - b) = 2 ^ nat (a - b)" using ba by (simp add: pow2_def)
  finally show ?thesis using pow2_pos[of b] by simp
qed

lemma expo_eq: "pow2 e \<le> \<bar>x\<bar> \<Longrightarrow> \<bar>x\<bar> < pow2 (e + 1) \<Longrightarrow> expo x = e"
proof -
  assume a: "pow2 e \<le> \<bar>x\<bar>" "\<bar>x\<bar> < pow2 (e + 1)"
  have "0 < \<bar>x\<bar>" using a(1) pow2_pos[of e] by linarith
  then show ?thesis
    unfolding expo_def using a
    by (simp add: floor_log_eq_powr_iff pow2_powr)
qed

lemma expo_bounds: "x \<noteq> 0 \<Longrightarrow> pow2 (expo x) \<le> \<bar>x\<bar> \<and> \<bar>x\<bar> < pow2 (expo x + 1)"
proof -
  assume "x \<noteq> 0"
  then have "0 < \<bar>x\<bar>" by simp
  then have "\<lfloor>log 2 \<bar>x\<bar>\<rfloor> = expo x \<longleftrightarrow>
      2 powr (real_of_int (expo x)) \<le> \<bar>x\<bar> \<and> \<bar>x\<bar> < 2 powr (real_of_int (expo x + 1))"
    by (intro floor_log_eq_powr_iff) simp_all
  then show ?thesis by (simp add: expo_def pow2_powr)
qed

lemma expo_neg: "expo (- x) = expo x"
  by (simp add: expo_def)

lemma roundEven_int: "roundEven (of_int k) = k"
  by (simp add: roundEven_def)

lemma roundEven_bounds: "\<lfloor>r\<rfloor> \<le> roundEven r \<and> roundEven r \<le> \<lfloor>r\<rfloor> + 1"
  by (simp add: roundEven_def Let_def)

lemma roundEven_le_int: "r \<le> of_int k \<Longrightarrow> roundEven r \<le> k"
proof -
  assume a: "r \<le> of_int k"
  show ?thesis
  proof (cases "r = of_int k")
    case True
    then show ?thesis by (simp add: roundEven_int)
  next
    case False
    then have "r < of_int k" using a by simp
    then have "\<lfloor>r\<rfloor> < k" by linarith
    then show ?thesis using roundEven_bounds[of r] by linarith
  qed
qed

lemma roundEven_ge_int: "of_int k \<le> r \<Longrightarrow> k \<le> roundEven r"
proof -
  assume "of_int k \<le> r"
  then have "k \<le> \<lfloor>r\<rfloor>" by linarith
  then show ?thesis using roundEven_bounds[of r] by linarith
qed

lemma roundEven_mono: "r \<le> s \<Longrightarrow> roundEven r \<le> roundEven s"
proof -
  assume a: "r \<le> s"
  then have f: "\<lfloor>r\<rfloor> \<le> \<lfloor>s\<rfloor>" by (rule floor_mono)
  show ?thesis
  proof (cases "\<lfloor>r\<rfloor> = \<lfloor>s\<rfloor>")
    case True
    then show ?thesis using a by (auto simp: roundEven_def Let_def)
  next
    case False
    then have "\<lfloor>r\<rfloor> + 1 \<le> \<lfloor>s\<rfloor>" using f by linarith
    then show ?thesis using roundEven_bounds[of r] roundEven_bounds[of s] by linarith
  qed
qed

lemma roundEven_err: "\<bar>of_int (roundEven r) - r\<bar> \<le> 1 / 2"
  unfolding roundEven_def Let_def by (auto; linarith)

lemma roundEven_neg: "roundEven (- r) = - roundEven r"
proof (cases "r = of_int \<lfloor>r\<rfloor>")
  case True
  then have "roundEven r = \<lfloor>r\<rfloor>" using roundEven_int[of "\<lfloor>r\<rfloor>"] by simp
  moreover have "roundEven (- r) = - \<lfloor>r\<rfloor>"
    using True roundEven_int[of "- \<lfloor>r\<rfloor>"] by simp
  ultimately show ?thesis by simp
next
  case False
  then have lt: "of_int \<lfloor>r\<rfloor> < r" by linarith
  have fn: "\<lfloor>- r\<rfloor> = - \<lfloor>r\<rfloor> - 1" using lt by linarith
  show ?thesis
    unfolding roundEven_def Let_def fn using lt by (auto; linarith?)
qed

lemma fl_zero: "fl 0 = 0"
  by (simp add: fl_def)

lemma fl_eval:
  assumes "pow2 e \<le> \<bar>x\<bar>" "\<bar>x\<bar> < pow2 (e + 1)"
  shows "fl x = of_int (roundEven (x / pow2 (e - 52))) * pow2 (e - 52)"
proof -
  have "x \<noteq> 0" using assms(1) pow2_pos[of e] by auto
  then show ?thesis by (simp add: fl_def expo_eq[OF assms])
qed

lemma fl_neg: "fl (- x) = - fl x"
  by (simp add: fl_def expo_neg roundEven_neg)

lemma pow2_52: "pow2 e / pow2 (e - 52) = 2 ^ 52"
  using pow2_diff_int[of "e - 52" e] by simp

lemma pow2_53: "pow2 (e + 1) / pow2 (e - 52) = 2 ^ 53"
  using pow2_diff_int[of "e - 52" "e + 1"] by simp

lemma fl_pos_range:
  assumes "pow2 e \<le> x" "x < pow2 (e + 1)"
  shows "pow2 e \<le> fl x \<and> fl x \<le> pow2 (e + 1)"
proof -
  let ?q = "pow2 (e - 52)"
  have q: "0 < ?q" by (rule pow2_pos)
  have x: "0 < x" using assms(1) pow2_pos[of e] by linarith
  have f: "fl x = of_int (roundEven (x / ?q)) * ?q"
    using assms x by (intro fl_eval) simp_all
  have "pow2 e / ?q \<le> x / ?q" using assms(1) q by (simp add: divide_right_mono)
  then have "of_int (2 ^ 52) \<le> x / ?q" by (simp add: pow2_52)
  then have lo: "2 ^ 52 \<le> roundEven (x / ?q)" by (rule roundEven_ge_int)
  have "x / ?q \<le> pow2 (e + 1) / ?q" using assms(2) q by (simp add: divide_right_mono)
  then have "x / ?q \<le> of_int (2 ^ 53)" by (simp add: pow2_53)
  then have hi: "roundEven (x / ?q) \<le> 2 ^ 53" by (rule roundEven_le_int)
  have "of_int (2 ^ 52) * ?q \<le> of_int (roundEven (x / ?q)) * ?q"
    using lo q by (intro mult_right_mono) simp_all
  moreover have "of_int (2 ^ 52) * ?q = pow2 e" using pow2_52[of e] q by (simp add: field_simps)
  moreover have "of_int (roundEven (x / ?q)) * ?q \<le> of_int (2 ^ 53) * ?q"
    using hi q by (intro mult_right_mono) simp_all
  moreover have "of_int (2 ^ 53) * ?q = pow2 (e + 1)" using pow2_53[of e] q by (simp add: field_simps)
  ultimately show ?thesis unfolding f by simp
qed

lemma fl_pos: "0 < x \<Longrightarrow> 0 < fl x"
proof -
  assume x: "0 < x"
  then have "pow2 (expo x) \<le> x \<and> x < pow2 (expo x + 1)" using expo_bounds[of x] by simp
  then have "pow2 (expo x) \<le> fl x" using fl_pos_range[of "expo x" x] by simp
  then show ?thesis using pow2_pos[of "expo x"] by linarith
qed

lemma fl_nonneg: "0 \<le> x \<Longrightarrow> 0 \<le> fl x"
  using fl_pos[of x] by (cases "x = 0") (simp_all add: fl_zero)

lemma expo_mono: "0 < x \<Longrightarrow> x \<le> y \<Longrightarrow> expo x \<le> expo y"
  unfolding expo_def by (intro floor_mono) simp

lemma fl_mono_pos:
  assumes "0 < x" "x \<le> y"
  shows "fl x \<le> fl y"
proof -
  have y: "0 < y" using assms by linarith
  have bx: "pow2 (expo x) \<le> x" "x < pow2 (expo x + 1)" using expo_bounds[of x] assms(1) by simp_all
  have by': "pow2 (expo y) \<le> y" "y < pow2 (expo y + 1)" using expo_bounds[of y] y by simp_all
  have le: "expo x \<le> expo y" using assms by (rule expo_mono)
  show ?thesis
  proof (cases "expo x = expo y")
    case True
    let ?q = "pow2 (expo y - 52)"
    have q: "0 < ?q" by (rule pow2_pos)
    have "x / ?q \<le> y / ?q" using assms(2) q by (simp add: divide_right_mono)
    then have "roundEven (x / ?q) \<le> roundEven (y / ?q)" by (rule roundEven_mono)
    then have "of_int (roundEven (x / ?q)) * ?q \<le> of_int (roundEven (y / ?q)) * ?q"
      using q by (intro mult_right_mono) simp_all
    then show ?thesis using assms(1) y True by (simp add: fl_def)
  next
    case False
    then have "expo x + 1 \<le> expo y" using le by simp
    then have "pow2 (expo x + 1) \<le> pow2 (expo y)" by (rule pow2_mono)
    moreover have "fl x \<le> pow2 (expo x + 1)" using fl_pos_range[OF bx] by simp
    moreover have "pow2 (expo y) \<le> fl y" using fl_pos_range[OF by'] by simp
    ultimately show ?thesis by linarith
  qed
qed

lemma fl_mono: "x \<le> y \<Longrightarrow> fl x \<le> fl y"
proof -
  assume a: "x \<le> y"
  consider "0 < x" | "x \<le> 0" "0 \<le> y" | "y < 0" by linarith
  then show ?thesis
  proof cases
    case 1
    then show ?thesis using a by (rule fl_mono_pos)
  next
    case 2
    have "0 \<le> fl (- x)" using 2(1) by (intro fl_nonneg) simp
    then have "fl x \<le> 0" by (simp add: fl_neg)
    moreover have "0 \<le> fl y" using 2(2) by (rule fl_nonneg)
    ultimately show ?thesis by linarith
  next
    case 3
    then have "fl (- y) \<le> fl (- x)" using a by (intro fl_mono_pos) simp_all
    then show ?thesis by (simp add: fl_neg)
  qed
qed

lemma fl_grid:
  assumes "pow2 e \<le> \<bar>x\<bar>" "\<bar>x\<bar> \<le> pow2 (e + 1)" "x = of_int k * pow2 (e - 52)"
  shows "fl x = x"
proof (cases "\<bar>x\<bar> < pow2 (e + 1)")
  case True
  have "x / pow2 (e - 52) = of_int k" using assms(3) pow2_pos[of "e - 52"] by simp
  then show ?thesis using fl_eval[OF assms(1) True] assms(3) by (simp add: roundEven_int)
next
  case False
  then have eq: "\<bar>x\<bar> = pow2 (e + 1)" using assms(2) by simp
  have "pow2 (e + 1 + 1) = 2 * pow2 (e + 1)" by (rule pow2_Suc)
  then have "pow2 (e + 1) \<le> \<bar>x\<bar>" "\<bar>x\<bar> < pow2 (e + 1 + 1)"
    using eq pow2_pos[of "e + 1"] by linarith+
  then have f: "fl x = of_int (roundEven (x / pow2 (e + 1 - 52))) * pow2 (e + 1 - 52)"
    by (rule fl_eval)
  have q: "pow2 (e + 1) / pow2 (e + 1 - 52) = of_int (2 ^ 52)" using pow2_52[of "e + 1"] by simp
  have p: "0 < pow2 (e + 1 - 52)" by (rule pow2_pos)
  show ?thesis
  proof (cases "0 \<le> x")
    case True
    then have "x = pow2 (e + 1)" using eq by simp
    then have "x / pow2 (e + 1 - 52) = of_int (2 ^ 52)" using q by simp
    then have "fl x = of_int (2 ^ 52) * pow2 (e + 1 - 52)"
      unfolding f by (simp only: roundEven_int)
    also have "\<dots> = pow2 (e + 1)" using q p by (simp add: field_simps)
    finally show ?thesis using \<open>x = pow2 (e + 1)\<close> by simp
  next
    case False
    then have x: "x = - pow2 (e + 1)" using eq by simp
    then have "x / pow2 (e + 1 - 52) = of_int (- (2 ^ 52))" using q by simp
    then have "fl x = of_int (- (2 ^ 52)) * pow2 (e + 1 - 52)"
      unfolding f by (simp only: roundEven_int)
    also have "\<dots> = - pow2 (e + 1)" using q p by (simp add: field_simps)
    finally show ?thesis using x by simp
  qed
qed

lemma fl_int: "\<bar>k\<bar> \<le> 2 ^ 53 \<Longrightarrow> fl (of_int k) = of_int k"
proof (cases "k = 0")
  case True
  then show ?thesis by (simp add: fl_zero)
next
  case False
  assume k: "\<bar>k\<bar> \<le> 2 ^ 53"
  let ?x = "real_of_int k"
  let ?e = "expo ?x"
  have b: "pow2 ?e \<le> \<bar>?x\<bar>" "\<bar>?x\<bar> < pow2 (?e + 1)" using expo_bounds[of ?x] False by simp_all
  have "1 \<le> \<bar>?x\<bar>" using False by (simp add: abs_if)
  then have "pow2 0 < pow2 (?e + 1)" using b(2) by (simp add: pow2_def)
  then have e0: "0 \<le> ?e" using pow2_mono[of "?e + 1" 0] by (cases "0 \<le> ?e") auto
  have "\<bar>?x\<bar> \<le> 2 ^ 53" using k by (metis of_int_abs of_int_le_iff of_int_numeral of_int_power)
  then have "pow2 ?e \<le> pow2 53" using b(1) by (simp add: pow2_def)
  then have e53: "?e \<le> 53" using pow2_mono[of 54 ?e] by (cases "?e \<le> 53") (auto simp: pow2_def)
  show ?thesis
  proof (cases "?e \<le> 52")
    case True
    have "pow2 0 / pow2 (?e - 52) = of_int (2 ^ nat (0 - (?e - 52)))"
      using True by (intro pow2_diff_int) simp
    moreover have "pow2 0 = 1" by (simp add: pow2_def)
    moreover have "0 - (?e - 52) = 52 - ?e" by simp
    ultimately have "1 / pow2 (?e - 52) = of_int (2 ^ nat (52 - ?e))" by simp
    then have "of_int (2 ^ nat (52 - ?e)) * pow2 (?e - 52) = 1"
      using pow2_pos[of "?e - 52"] by (simp add: field_simps)
    then have "?x = of_int (k * 2 ^ nat (52 - ?e)) * pow2 (?e - 52)"
      by (simp add: mult.assoc)
    then show ?thesis using b by (intro fl_grid[of ?e ?x "k * 2 ^ nat (52 - ?e)"]) simp_all
  next
    case False
    then have e: "?e = 53" using e53 by simp
    have "pow2 53 \<le> \<bar>?x\<bar>" using b(1) e by simp
    then have "\<bar>?x\<bar> = 2 ^ 53" using \<open>\<bar>?x\<bar> \<le> 2 ^ 53\<close> by (simp add: pow2_def)
    then have "\<bar>?x\<bar> = pow2 (52 + 1)" by (simp add: pow2_def)
    moreover have "?x = of_int k * pow2 (52 - 52)" by (simp add: pow2_def)
    moreover have "pow2 52 \<le> \<bar>?x\<bar>" using \<open>\<bar>?x\<bar> = 2 ^ 53\<close> by (simp add: pow2_def)
    ultimately show ?thesis by (intro fl_grid[of 52 ?x k]) simp_all
  qed
qed

lemma fl_err: "x \<noteq> 0 \<Longrightarrow> \<bar>fl x - x\<bar> \<le> pow2 (expo x - 53)"
proof -
  assume x: "x \<noteq> 0"
  let ?q = "pow2 (expo x - 52)"
  have q: "0 < ?q" by (rule pow2_pos)
  have "\<bar>of_int (roundEven (x / ?q)) - x / ?q\<bar> * ?q \<le> 1 / 2 * ?q"
    using roundEven_err[of "x / ?q"] q by (intro mult_right_mono) simp_all
  moreover have "\<bar>of_int (roundEven (x / ?q)) - x / ?q\<bar> * ?q = \<bar>fl x - x\<bar>"
  proof -
    have "\<bar>of_int (roundEven (x / ?q)) - x / ?q\<bar> * ?q = \<bar>(of_int (roundEven (x / ?q)) - x / ?q) * ?q\<bar>"
      using q by (simp add: abs_mult)
    also have "(of_int (roundEven (x / ?q)) - x / ?q) * ?q = fl x - x"
      using q x by (simp add: fl_def left_diff_distrib)
    finally show ?thesis .
  qed
  moreover have "1 / 2 * ?q = pow2 (expo x - 53)"
    using pow2_Suc[of "expo x - 53"] by simp
  ultimately show ?thesis by simp
qed

lemma fl_rel_err: "\<bar>fl x - x\<bar> \<le> \<bar>x\<bar> / 2 ^ 53"
proof (cases "x = 0")
  case True
  then show ?thesis by (simp add: fl_zero)
next
  case False
  have "pow2 (expo x - 53) * 2 ^ 53 = pow2 (expo x)"
    using pow2_add[of "expo x - 53" 53] by (simp add: pow2_def)
  then have "pow2 (expo x - 53) = pow2 (expo x) / 2 ^ 53" by (simp add: field_simps)
  also have "\<dots> \<le> \<bar>x\<bar> / 2 ^ 53" using expo_bounds[OF False] by (simp add: divide_right_mono)
  finally show ?thesis using fl_err[OF False] by linarith
qed

section \<open>Values of the literals and of sums and products of the program\<close>

lemma literal_0_1_value: "literal_0_1 = 3602879701896397 / 2 ^ 55"
  unfolding literal_0_1_def
  by (subst fl_eval[of "- 4"]) (simp_all add: pow2_def roundEven_def)

lemma fl_5_tenths: "fl (5 * literal_0_1) = 1 / 2"
  unfolding literal_0_1_value
  by (subst fl_eval[of "- 1"]) (simp_all add: pow2_def roundEven_def)

lemma fl_10_tenths: "fl (10 * literal_0_1) = 1"
  unfolding literal_0_1_value
  by (subst fl_eval[of 0]) (simp_all add: pow2_def roundEven_def)

lemma fl_7_tenths: "fl (7 * literal_0_1) = 6305039478318695 / 2 ^ 53"
  unfolding literal_0_1_value
  by (subst fl_eval[of "- 1"]) (simp_all add: pow2_def roundEven_def)

lemma fl_1_plus_7_tenths: "fl (1 + 6305039478318695 / 2 ^ 53) = 7656119366529844 / 2 ^ 52"
  by (subst fl_eval[of 0]) (simp_all add: pow2_def roundEven_def)

lemma fl_3_halves: "fl (3 / 2) = 3 / 2"
  by (subst fl_eval[of 0]) (simp_all add: pow2_def roundEven_def)

lemma fl_minus_10_tenths: "fl (- 10 * literal_0_1) = - 1"
  unfolding literal_0_1_value
  by (subst fl_eval[of 0]) (simp_all add: pow2_def roundEven_def)

lemma fl_minus_20_tenths: "fl (- 20 * literal_0_1) = - 2"
  unfolding literal_0_1_value
  by (subst fl_eval[of 1]) (simp_all add: pow2_def roundEven_def)

lemma fl_PI_180: "fl (Math_PI / 180) = 5030569068109113 / 2 ^ 58"
  unfolding Math_PI_def
  by (subst fl_eval[of "- 6"]) (simp_all add: pow2_def roundEven_def)


lemma toNumber_int: "\<bar>k\<bar> \<le> 2 ^ 53 \<Longrightarrow> toNumber (of_int k) = Num (of_int k)"
proof -
  assume k: "\<bar>k\<bar> \<le> 2 ^ 53"
  have "\<bar>real_of_int k\<bar> \<le> 2 ^ 53" using k by (metis of_int_abs of_int_le_iff of_int_numeral of_int_power)
  then have "real_of_int k < 2 ^ 1024" "- (2 ^ 1024) < real_of_int k" by simp_all
  then show ?thesis by (simp add: toNumber_def fl_int[OF k])
qed

section \<open>Remainder, Math.round and atan2\<close>

lemma js_rem_id: "0 \<le> a \<Longrightarrow> a < n \<Longrightarrow> js_rem a n = a"
proof -
  assume a: "0 \<le> a" "a < n"
  then have "0 \<le> a / n" "a / n < 1" by simp_all
  then have "\<lfloor>a / n\<rfloor> = 0" by linarith
  with \<open>0 \<le> a / n\<close> show ?thesis by (simp add: js_rem_def js_trunc_def)
qed

lemma js_rem_wrap: "n \<le> a \<Longrightarrow> a < 2 * n \<Longrightarrow> 0 < n \<Longrightarrow> js_rem a n = a - n"
proof -
  assume a: "n \<le> a" "a < 2 * n" "0 < n"
  then have "1 \<le> a / n" "a / n < 2" by (simp_all add: divide_less_eq)
  then have "\<lfloor>a / n\<rfloor> = 1" by linarith
  with \<open>1 \<le> a / n\<close> show ?thesis by (simp add: js_rem_def js_trunc_def)
qed

lemma Math_round_bounds: "\<bar>of_int (Math_round x) - x\<bar> \<le> 1 / 2"
  unfolding Math_round_def by linarith

lemma atan2_bounds: "- pi < atan2 y x \<and> atan2 y x \<le> pi"
proof -
  have b: "- (pi / 2) < arctan (y / x)" "arctan (y / x) < pi / 2"
    by (rule arctan_lbound, rule arctan_ubound)
  have p: "0 < pi" by simp
  consider "0 < x" | "x < 0" "0 \<le> y" | "x < 0" "y < 0" | "x = 0"
    by linarith
  then show ?thesis
  proof cases
    case 1
    then have "atan2 y x = arctan (y / x)" by (simp add: atan2_def)
    then show ?thesis using b p by linarith
  next
    case 2
    then have "y / x \<le> 0" by (simp add: divide_nonneg_neg)
    then have "arctan (y / x) \<le> 0" by simp
    moreover have "atan2 y x = arctan (y / x) + pi" using 2 by (simp add: atan2_def)
    ultimately show ?thesis using b p by linarith
  next
    case 3
    then have "0 < y / x" by (simp add: divide_neg_neg)
    then have "0 < arctan (y / x)" by simp
    moreover have "atan2 y x = arctan (y / x) - pi" using 3 by (simp add: atan2_def)
    ultimately show ?thesis using b p by linarith
  next
    case 4
    then have "atan2 y x = pi / 2 \<or> atan2 y x = - (pi / 2) \<or> atan2 y x = 0"
      by (simp add: atan2_def)
    then show ?thesis using p by linarith
  qed
qed

lemma cos_pos_range:
  assumes "- pi < t" "t \<le> pi" "0 < cos t"
  shows "- (pi / 2) < t \<and> t < pi / 2"
proof -
  have "\<bar>t\<bar> < pi / 2"
  proof (rule ccontr)
    assume "\<not> \<bar>t\<bar> < pi / 2"
    then have "pi / 2 \<le> \<bar>t\<bar>" by simp
    moreover have "\<bar>t\<bar> \<le> pi" using assms by simp
    ultimately have "cos \<bar>t\<bar> \<le> cos (pi / 2)"
      by (intro cos_monotone_0_pi_le) simp_all
    then show False using assms(3) by simp
  qed
  then show ?thesis by linarith
qed

lemma atan2_polar:
  assumes r: "0 < r" and t: "- pi < t" "t \<le> pi"
  shows "atan2 (r * sin t) (r * cos t) = t"
proof -
  have q: "r * sin t / (r * cos t) = tan t" using r by (simp add: tan_def)
  consider "0 < cos t" | "cos t < 0" "0 \<le> sin t" | "cos t < 0" "sin t < 0" | "cos t = 0"
    by linarith
  then show ?thesis
  proof cases
    case 1
    then have "- (pi / 2) < t \<and> t < pi / 2" using t by (intro cos_pos_range)
    then have "arctan (tan t) = t" by (simp add: arctan_tan)
    with 1 r q show ?thesis by (simp add: atan2_def zero_less_mult_iff)
  next
    case 2
    have "0 \<le> t"
    proof (rule ccontr)
      assume "\<not> 0 \<le> t"
      then have "- pi < t" "t < 0" using t by simp_all
      then have "0 < sin (- t)" by (intro sin_gt_zero) simp_all
      with 2 show False by simp
    qed
    moreover have "t \<noteq> 0" using 2 by auto
    ultimately have "0 < t" by simp
    have "0 < cos (t - pi)" using 2 by simp
    then have "- (pi / 2) < t - pi \<and> t - pi < pi / 2" using t \<open>0 < t\<close>
      by (intro cos_pos_range) simp_all
    then have "arctan (tan (t - pi)) = t - pi" by (intro arctan_tan) simp_all
    moreover have "tan (t - pi) = tan t" by (simp add: tan_def)
    ultimately have "arctan (tan t) = t - pi" by simp
    with 2 r q show ?thesis
      by (simp add: atan2_def zero_less_mult_iff mult_less_0_iff zero_le_mult_iff)
  next
    case 3
    have "t < 0"
    proof (rule ccontr)
      assume "\<not> t < 0"
      then have "0 \<le> t" by simp
      then have "0 \<le> sin t" using t by (intro sin_ge_zero)
      with 3 show False by simp
    qed
    have "0 < cos (t + pi)" using 3 by simp
    then have "- (pi / 2) < t + pi \<and> t + pi < pi / 2" using t \<open>t < 0\<close>
      by (intro cos_pos_range) simp_all
    then have "arctan (tan (t + pi)) = t + pi" by (intro arctan_tan) simp_all
    then have "arctan (tan t) = t + pi" by simp
    with 3 r q show ?thesis
      by (simp add: atan2_def zero_less_mult_iff mult_less_0_iff zero_le_mult_iff)
  next
    case 4
    then have s: "sin t = 1 \<or> sin t = - 1"
      using sin_cos_squared_add[of t] by (simp add: power2_eq_1_iff)
    show ?thesis
    proof (cases "0 \<le> t")
      case True
      then have "0 \<le> sin t" using t by (intro sin_ge_zero)
      with s have s1: "sin t = 1" by linarith
      have "atan2 (r * sin t) (r * cos t) = pi / 2"
        using 4 r s1 by (simp add: atan2_def)
      moreover have "t = pi / 2"
      proof (rule cos_inj_pi)
        show "0 \<le> t" by (rule True)
        show "t \<le> pi" by (rule t)
        show "0 \<le> pi / 2" by simp
        show "pi / 2 \<le> pi" by simp
        show "cos t = cos (pi / 2)" using 4 by simp
      qed
      ultimately show ?thesis by linarith
    next
      case False
      then have "0 < sin (- t)" using t by (intro sin_gt_zero) simp_all
      then have "sin t < 0" by simp
      with s have s1: "sin t = - 1" by linarith
      have "atan2 (r * sin t) (r * cos t) = - (pi / 2)"
        using 4 r s1 by (simp add: atan2_def)
      moreover have "- t = pi / 2"
      proof (rule cos_inj_pi)
        show "0 \<le> - t" using False by simp
        show "- t \<le> pi" using t by simp
        show "0 \<le> pi / 2" by simp
        show "pi / 2 \<le> pi" by simp
        show "cos (- t) = cos (pi / 2)" using 4 by simp
      qed
      ultimately show ?thesis by linarith
    qed
  qed
qed

lemma atan2_polar_form:
  assumes "x \<noteq> 0 \<or> y \<noteq> 0"
  shows "x = sqrt (x\<^sup>2 + y\<^sup>2) * cos (atan2 y x) \<and> y = sqrt (x\<^sup>2 + y\<^sup>2) * sin (atan2 y x)"
proof -
  let ?r = "sqrt (x\<^sup>2 + y\<^sup>2)"
  have "0 < x\<^sup>2 + y\<^sup>2" using assms by (auto simp: sum_power2_gt_zero_iff)
  then have r: "0 < ?r" by simp
  have r2: "?r\<^sup>2 = x\<^sup>2 + y\<^sup>2" by simp
  have "(x / ?r)\<^sup>2 + (y / ?r)\<^sup>2 = (x\<^sup>2 + y\<^sup>2) / ?r\<^sup>2"
    by (simp only: power_divide add_divide_distrib)
  also have "\<dots> = 1" using assms by (simp only: r2) auto
  finally have "(x / ?r)\<^sup>2 + (y / ?r)\<^sup>2 = 1" .
  then obtain t0 where t0: "x / ?r = cos t0" "y / ?r = sin t0"
    by (rule sincos_total_2pi)
  obtain t where t: "- pi < t" "t \<le> pi" "sin t = sin t0" "cos t = cos t0"
    using sincos_principal_value[of t0] by blast
  have "?r * cos t = ?r * (x / ?r)" "?r * sin t = ?r * (y / ?r)"
    by (simp_all only: t t0)
  then have xy: "x = ?r * cos t" "y = ?r * sin t" using r by simp_all
  have "atan2 (?r * sin t) (?r * cos t) = t" using r t by (intro atan2_polar)
  then have "atan2 y x = t" using xy by simp
  then show ?thesis using xy by simp
qed

section \<open>Bounds on sine, cosine and pi\<close>

lemma sin_lower: "0 \<le> x \<Longrightarrow> x - x ^ 3 / 6 \<le> sin (x::real)"
proof -
  assume x: "0 \<le> x"
  have "(\<Sum>m<3. sin_coeff m * x ^ m) = x"
    by (simp add: sin_coeff_def numeral_3_eq_3)
  then have "\<bar>sin x - x\<bar> \<le> inverse (fact 3) * \<bar>x\<bar> ^ 3"
    using Maclaurin_sin_bound[of x 3] by simp
  moreover have "inverse (fact 3) * \<bar>x\<bar> ^ 3 = x ^ 3 / 6"
    using x by (simp add: fact_numeral)
  ultimately show ?thesis by linarith
qed

lemma sum_below_9: "(\<Sum>m<9. f m) = f 0 + f 1 + f 2 + f 3 + f 4 + f 5 + f 6 + f 7 + f (8::nat)"
  for f :: "nat \<Rightarrow> real"
  by (simp add: eval_nat_numeral)

lemma sin_coeff_values:
  "sin_coeff 0 = 0" "sin_coeff 1 = 1" "sin_coeff 2 = 0" "sin_coeff 3 = - 1 / 6"
  "sin_coeff 4 = 0" "sin_coeff 5 = 1 / 120" "sin_coeff 6 = 0" "sin_coeff 7 = - 1 / 5040"
  "sin_coeff 8 = 0"
  by (simp_all add: sin_coeff_def fact_numeral)

lemma sin_series_7:
  assumes x: "0 \<le> (x::real)"
  shows "\<bar>sin x - (x - x ^ 3 / 6 + x ^ 5 / 120 - x ^ 7 / 5040)\<bar> \<le> x ^ 9 / 362880"
proof -
  have "(\<Sum>m<9. sin_coeff m * x ^ m) = x - x ^ 3 / 6 + x ^ 5 / 120 - x ^ 7 / 5040"
    unfolding sum_below_9 sin_coeff_values by simp
  then have "\<bar>sin x - (x - x ^ 3 / 6 + x ^ 5 / 120 - x ^ 7 / 5040)\<bar> \<le> inverse (fact 9) * \<bar>x\<bar> ^ 9"
    using Maclaurin_sin_bound[of x 9] by simp
  moreover have "inverse (fact 9) * \<bar>x\<bar> ^ 9 = x ^ 9 / 362880"
    using x by (simp add: fact_numeral)
  ultimately show ?thesis by linarith
qed

lemma cos_lower: "1 - x\<^sup>2 / 2 \<le> cos (x::real)"
proof -
  have "cos x = 1 - 2 * (sin (x / 2))\<^sup>2"
    using cos_double_sin[of "x / 2"] by simp
  moreover have "(sin (x / 2))\<^sup>2 \<le> (x / 2)\<^sup>2"
    using abs_sin_x_le_abs_x[of "x / 2"] by (simp add: abs_le_square_iff[symmetric])
  ultimately show ?thesis by (simp add: power2_eq_square)
qed

lemma pi_ge_3: "3 \<le> pi"
proof -
  have "sin (pi / 6) \<le> pi / 6" by (intro sin_x_le_x) simp
  then show ?thesis by (simp add: sin_30)
qed

lemma pi_upper: "pi < 3141593 / 1000000"
proof (rule ccontr)
  assume "\<not> pi < 3141593 / 1000000"
  then have p: "3141593 / 6000000 \<le> pi / 6" by simp
  let ?x = "3141593 / 6000000 :: real"
  have "sin ?x \<le> sin (pi / 6)"
    using p by (intro sin_monotone_2pi_le) (simp_all, linarith?)
  then have "sin ?x \<le> 1 / 2" by (simp add: sin_30)
  moreover have "\<bar>sin ?x - (?x - ?x ^ 3 / 6 + ?x ^ 5 / 120 - ?x ^ 7 / 5040)\<bar> \<le> ?x ^ 9 / 362880"
    by (intro sin_series_7) simp
  moreover have "1 / 2 < (?x - ?x ^ 3 / 6 + ?x ^ 5 / 120 - ?x ^ 7 / 5040) - ?x ^ 9 / 362880"
    by (simp add: power_divide)
  ultimately show False by linarith
qed

lemma pi_lower: "3141592 / 1000000 < pi"
proof (rule ccontr)
  assume "\<not> 3141592 / 1000000 < pi"
  then have p: "pi / 6 \<le> 3141592 / 6000000" by simp
  let ?x = "3141592 / 6000000 :: real"
  have "?x \<le> pi / 2" using pi_ge_3 by simp
  then have "sin (pi / 6) \<le> sin ?x"
    using p by (intro sin_monotone_2pi_le) (simp_all, linarith?)
  then have "1 / 2 \<le> sin ?x" by (simp add: sin_30)
  moreover have "\<bar>sin ?x - (?x - ?x ^ 3 / 6 + ?x ^ 5 / 120 - ?x ^ 7 / 5040)\<bar> \<le> ?x ^ 9 / 362880"
    by (intro sin_series_7) simp
  moreover have "(?x - ?x ^ 3 / 6 + ?x ^ 5 / 120 - ?x ^ 7 / 5040) + ?x ^ 9 / 362880 < 1 / 2"
    by (simp add: power_divide)
  ultimately show False by linarith
qed

lemma Math_PI_near_pi: "\<bar>Math_PI - pi\<bar> \<le> 1 / 1000000"
proof -
  have "Math_PI - pi \<le> 1 / 1000000" "pi - Math_PI \<le> 1 / 1000000"
    using pi_lower pi_upper unfolding Math_PI_def by simp_all
  then show ?thesis by linarith
qed

lemma sin_lipschitz: "\<bar>sin u - sin v\<bar> \<le> \<bar>u - v\<bar>" for u v :: real
proof -
  have "sin u - sin v = 2 * sin ((u - v) / 2) * cos ((u + v) / 2)"
    by (rule sin_diff_sin)
  then have "\<bar>sin u - sin v\<bar> = 2 * \<bar>sin ((u - v) / 2)\<bar> * \<bar>cos ((u + v) / 2)\<bar>"
    by (simp add: abs_mult)
  also have "\<dots> \<le> 2 * \<bar>(u - v) / 2\<bar> * 1"
    by (intro mult_mono mult_left_mono abs_sin_x_le_abs_x) simp_all
  finally show ?thesis by simp
qed

lemma cos_lipschitz: "\<bar>cos u - cos v\<bar> \<le> \<bar>u - v\<bar>" for u v :: real
proof -
  have "cos u - cos v = 2 * sin ((u + v) / 2) * sin ((v - u) / 2)"
    by (rule cos_diff_cos)
  then have "\<bar>cos u - cos v\<bar> = 2 * \<bar>sin ((u + v) / 2)\<bar> * \<bar>sin ((v - u) / 2)\<bar>"
    by (simp add: abs_mult)
  also have "\<dots> \<le> 2 * 1 * \<bar>(v - u) / 2\<bar>"
    by (intro mult_mono mult_left_mono abs_sin_x_le_abs_x) simp_all
  finally show ?thesis by simp
qed

section \<open>What each operation changes\<close>

lemma fl_numeral: "numeral n \<le> (2 ^ 53 :: int) \<Longrightarrow> fl (numeral n) = numeral n"
  using fl_int[of "numeral n"] by simp

lemma fl_neg_numeral: "numeral n \<le> (2 ^ 53 :: int) \<Longrightarrow> fl (- numeral n) = - numeral n"
  using fl_numeral[of n] by (simp add: fl_neg)

lemma fl_one: "fl 1 = 1"
  using fl_int[of 1] by simp

lemma pi_minus_Math_PI: "pi - Math_PI \<le> libmError"
  using pi_upper unfolding Math_PI_def libmError_def by simp

lemma Math_PI_bounds: "3 < Math_PI" "Math_PI < 4"
  by (simp_all add: Math_PI_def)

lemma fl_unit_err: "\<bar>x\<bar> \<le> 4 \<Longrightarrow> \<bar>fl x - x\<bar> \<le> 1 / 2 ^ 51"
proof -
  assume x: "\<bar>x\<bar> \<le> 4"
  have "\<bar>fl x - x\<bar> \<le> \<bar>x\<bar> / 2 ^ 53" by (rule fl_rel_err)
  also have "\<dots> \<le> 4 / 2 ^ 53" using x by (rule divide_right_mono) simp
  also have "\<dots> = 1 / 2 ^ 51" by simp
  finally show ?thesis .
qed

lemma accurate_exampleHost: "accurate exampleHost"
proof -
  have e: "1 / 2 ^ 51 \<le> libmError" by (simp add: libmError_def)
  have s: "\<bar>fl (sin x) - sin x\<bar> \<le> libmError" for x :: real
  proof -
    have "\<bar>sin x\<bar> \<le> 4" using abs_sin_le_one[of x] by linarith
    then show ?thesis using fl_unit_err[of "sin x"] e by linarith
  qed
  have c: "\<bar>fl (cos x) - cos x\<bar> \<le> libmError" for x :: real
  proof -
    have "\<bar>cos x\<bar> \<le> 4" using abs_cos_le_one[of x] by linarith
    then show ?thesis using fl_unit_err[of "cos x"] e by linarith
  qed
  have a: "\<bar>max (- Math_PI) (min Math_PI (fl (atan2 y x))) - atan2 y x\<bar> \<le> libmError \<and>
           \<bar>max (- Math_PI) (min Math_PI (fl (atan2 y x)))\<bar> \<le> Math_PI" for y x
  proof -
    have "\<bar>atan2 y x\<bar> \<le> 4" using atan2_bounds[of y x] pi_less_4 by linarith
    then have "\<bar>fl (atan2 y x) - atan2 y x\<bar> \<le> libmError"
      using fl_unit_err[of "atan2 y x"] e by linarith
    then show ?thesis
      using atan2_bounds[of y x] pi_minus_Math_PI Math_PI_bounds
      by (simp add: max_def min_def) linarith
  qed
  show ?thesis
    unfolding accurate_def using a s c by (simp add: exampleHost_def)
qed

lemma run_Nil: "run p s [] = s"
  by (simp add: run_def)


lemma run_Cons: "run p s (e # es) = run p (step p s e) es"
  by (simp add: run_def)

lemma run_invariant:
  assumes "P s" and "\<And>t e. P t \<Longrightarrow> e \<in> set es \<Longrightarrow> P (step p t e)"
  shows "P (run p s es)"
  using assms
proof (induction es arbitrary: s)
  case Nil
  then show ?case by (simp add: run_Nil)
next
  case (Cons e es)
  have "P (step p s e)" using Cons.prems by simp
  then show ?case unfolding run_Cons using Cons.prems(2) by (intro Cons.IH) simp_all
qed

lemma angleColors_in_bands: "fst (angleColors d) \<in> set bandColorValues"
  by (simp add: angleColors_def bandColorValues_def colorBands_def)

lemma updateLight_fields:
  "lightColor (updateLight s) = lightColor s"
  "lightIntensity (updateLight s) = lightIntensity s"
  "light (updateLight s) = Some \<lparr>color = lightColor s, intensity = lightIntensity s\<rparr>"
  "scene (updateLight s) =
     removeFromScene (light s) (scene s) @ [Light \<lparr>color = lightColor s, intensity = lightIntensity s\<rparr>]"
  "deg (updateLight s) = deg s" "mdown (updateLight s) = mdown s"
  "oninput (updateLight s) = oninput s" "elPos (updateLight s) = elPos s"
  "sliderLeft (updateLight s) = sliderLeft s" "sliderTop (updateLight s) = sliderTop s"
  "sliderRotate (updateLight s) = sliderRotate s"
  by (simp_all add: updateLight_def Let_def)

lemma setLight_fields:
  "lightColor (setLightAndUIFromAngle d s) = fst (angleColors d)"
  "lightIntensity (setLightAndUIFromAngle d s) = lightIntensity s"
  "light (setLightAndUIFromAngle d s) = Some \<lparr>color = fst (angleColors d), intensity = lightIntensity s\<rparr>"
  "scene (setLightAndUIFromAngle d s) =
     removeFromScene (light s) (scene s) @
       [Light \<lparr>color = fst (angleColors d), intensity = lightIntensity s\<rparr>]"
  "deg (setLightAndUIFromAngle d s) = deg s" "mdown (setLightAndUIFromAngle d s) = mdown s"
  "oninput (setLightAndUIFromAngle d s) = oninput s" "elPos (setLightAndUIFromAngle d s) = elPos s"
  "circleBackground (setLightAndUIFromAngle d s) = fst (snd (angleColors d))"
  "circleBoxShadow (setLightAndUIFromAngle d s) = ''1px 1px 5px 3px '' @ snd (snd (angleColors d))"
  "angleInput (setLightAndUIFromAngle d s) = \<lceil>d\<rceil>"
  "sliderLeft (setLightAndUIFromAngle d s) = sliderLeft s"
  "sliderTop (setLightAndUIFromAngle d s) = sliderTop s"
  "sliderRotate (setLightAndUIFromAngle d s) = sliderRotate s"
  by (simp_all add: setLightAndUIFromAngle_def updateLight_fields split: prod.split)

lemma positionSlider_fields:
  "lightColor (positionSlider p d s) = lightColor s"
  "lightIntensity (positionSlider p d s) = lightIntensity s"
  "light (positionSlider p d s) = light s"
  "scene (positionSlider p d s) = scene s"
  "deg (positionSlider p d s) = deg s" "mdown (positionSlider p d s) = mdown s"
  "oninput (positionSlider p d s) = oninput s" "elPos (positionSlider p d s) = elPos s"
  "sliderLeft (positionSlider p d s) =
     fl (fl (of_int (fst (sliderXY p d)) + ORBIT_RADIUS) - fl (sliderWidth p / 2))"
  "sliderTop (positionSlider p d s) =
     fl (fl (of_int (snd (sliderXY p d)) + ORBIT_RADIUS) - fl (sliderHeight p / 2))"
  "sliderRotate (positionSlider p d s) = d"
  by (simp_all add: positionSlider_def Let_def split: prod.split)

lemma intensityOnInput_fields:
  "lightColor (intensityOnInput v s) = lightColor s"
  "light (intensityOnInput v s) = Some \<lparr>color = lightColor s, intensity = lightIntensity (intensityOnInput v s)\<rparr>"
  "deg (intensityOnInput v s) = deg s" "mdown (intensityOnInput v s) = mdown s"
  "oninput (intensityOnInput v s) = oninput s"
  by (simp_all add: intensityOnInput_def updateLight_fields Let_def)

lemma onTick_fields:
  "lightColor (onTick p s) = fst (angleColors (js_rem (fl (deg s + 1)) 360))"
  "lightIntensity (onTick p s) = lightIntensity s"
  "light (onTick p s) = Some \<lparr>color = lightColor (onTick p s), intensity = lightIntensity s\<rparr>"
  "deg (onTick p s) = js_rem (fl (deg s + 1)) 360" "mdown (onTick p s) = mdown s"
  "oninput (onTick p s) = oninput s"
  by (simp_all add: onTick_def Let_def setLight_fields positionSlider_fields)

lemma onMouseMove_fields:
  "lightColor (onMouseMove p x y s) \<in> set bandColorValues \<longleftrightarrow> mdown s \<or> lightColor s \<in> set bandColorValues"
  "lightIntensity (onMouseMove p x y s) = lightIntensity s"
  "mdown (onMouseMove p x y s) = mdown s"
  "oninput (onMouseMove p x y s) = oninput s"
  by (simp_all add: onMouseMove_def Let_def setLight_fields positionSlider_fields angleColors_in_bands)

lemma sliderXY_0: "sliderXY exampleHost 0 = (0, - 27)"
  by (simp add: sliderXY_def Math_round_def ORBIT_RADIUS_def exampleHost_def fl_zero fl_one fl_neg_numeral)

lemma main_exampleHost:
  "main exampleHost =
     Inr \<lparr>scene = [PlaneMesh, SphereMesh, Light \<lparr>color = 0xFFFFFF, intensity = Num 1\<rparr>],
          light = Some \<lparr>color = 0xFFFFFF, intensity = Num 1\<rparr>,
          lightColor = 0xFFFFFF, lightIntensity = Num 1, deg = 0,
          mdown = False, elPos = (100, 50), circleBackground = ''white'',
          circleBoxShadow = ''1px 1px 5px 3px white'', angleInput = 0,
          sliderLeft = 22, sliderTop = - 5, sliderRotate = 0,
          oninput = Some IntensityHandler, renderRequested = True\<rparr>"
proof -
  have w: "sliderWidth exampleHost = 10" "sliderHeight exampleHost = 10"
    "circleOffset exampleHost = Some (100, 50)" "hasIntensitySlider exampleHost"
    by (simp_all add: exampleHost_def)
  show ?thesis
    by (simp add: main_def initColorControl_def initIntensityControl_def assignOnInput_def
        positionSlider_def sliderXY_0 w setLightAndUIFromAngle_def angleColors_def updateLight_def
        initLight_def createSphere_def createPlane_def initThree_def loaded_def removeFromScene_def
        ORBIT_RADIUS_def Let_def fl_numeral fl_neg_numeral fl_zero)
qed

lemma main_fields:
  assumes "main p = Inr s"
  shows "lightColor s = 0xFFFFFF" "lightIntensity s = Num 1" "deg s = 0" "\<not> mdown s"
    "light s = Some \<lparr>color = 0xFFFFFF, intensity = Num 1\<rparr>"
    "oninput s = (if hasIntensitySlider p then Some IntensityHandler else None)"
    "renderRequested s" "circleOffset p = Some (elPos s)"
  using assms
  by (auto simp: main_def initColorControl_def initIntensityControl_def assignOnInput_def
      positionSlider_fields setLight_fields angleColors_def Let_def initLight_def createSphere_def
      createPlane_def initThree_def loaded_def
      split: option.splits sum.splits if_splits)

section \<open>Invariants of a run\<close>

lemma step_oninput: "oninput (step p s e) = oninput s"
  by (cases e) (simp_all add: onTick_fields onMouseMove_fields intensityOnInput_fields split: option.split handler.split)

lemma run_oninput: "oninput (run p s es) = oninput s"
  by (rule run_invariant[where P = "\<lambda>t. oninput t = oninput s"]) (simp_all add: step_oninput)

lemma step_lightColor: "lightColor s \<in> set bandColorValues \<Longrightarrow> lightColor (step p s e) \<in> set bandColorValues"
  by (cases e) (simp_all add: onTick_fields onMouseMove_fields intensityOnInput_fields angleColors_in_bands split: option.split handler.split)

lemma fl_pow2: "fl (pow2 e) = pow2 e"
proof -
  have "pow2 e / pow2 (e - 52) = of_int (2 ^ 52)" using pow2_52[of e] by simp
  then have "pow2 e = of_int (2 ^ 52) * pow2 (e - 52)"
    using pow2_pos[of "e - 52"] by (simp add: field_simps)
  moreover have "pow2 e \<le> \<bar>pow2 e\<bar>" "\<bar>pow2 e\<bar> \<le> pow2 (e + 1)"
    using pow2_pos[of e] pow2_Suc[of e] by simp_all
  ultimately show ?thesis by (intro fl_grid[of e "pow2 e" "2 ^ 52"]) simp_all
qed

lemma fl_abs_le_pow2: "\<bar>x\<bar> \<le> pow2 e \<Longrightarrow> \<bar>fl x\<bar> \<le> pow2 e"
proof -
  assume "\<bar>x\<bar> \<le> pow2 e"
  then have "- pow2 e \<le> x" "x \<le> pow2 e" by linarith+
  then have "fl (- pow2 e) \<le> fl x" "fl x \<le> fl (pow2 e)" by (simp_all add: fl_mono)
  then show ?thesis by (simp add: fl_neg fl_pow2 abs_le_iff)
qed

lemma toNumber_Num: "\<bar>x\<bar> \<le> pow2 1023 \<Longrightarrow> toNumber x = Num (fl x)"
proof -
  assume "\<bar>x\<bar> \<le> pow2 1023"
  then have "\<bar>fl x\<bar> \<le> pow2 1023" by (rule fl_abs_le_pow2)
  moreover have "pow2 1023 < 2 ^ 1024" by (simp add: pow2_def)
  ultimately have "fl x < 2 ^ 1024" "- (2 ^ 1024) < fl x" by linarith+
  then show ?thesis by (simp add: toNumber_def)
qed

lemma toNumber_cases:
  "toNumber x = Num y \<Longrightarrow> y = fl x \<and> \<bar>y\<bar> < 2 ^ 1024"
  by (auto simp: toNumber_def split: if_splits)

lemma parseInt_Num: "parseInt v = Num x \<Longrightarrow> \<bar>x\<bar> < 2 ^ 1024"
  by (auto simp: parseInt_def Let_def split: if_splits dest: toNumber_cases)

lemma literal_0_1_bounds: "0 < literal_0_1" "literal_0_1 \<le> 1 / 8"
  by (simp_all add: literal_0_1_value)

lemma intensity_value:
  assumes "parseInt v = Num x"
  shows "lightIntensity (intensityOnInput v s) =
           (if x = 1 then Num 1 else Num (fl (1 + fl (x * literal_0_1))))"
proof -
  have x: "\<bar>x\<bar> < 2 ^ 1024" using assms by (rule parseInt_Num)
  have "\<bar>x * literal_0_1\<bar> = \<bar>x\<bar> * literal_0_1" using literal_0_1_bounds by (simp add: abs_mult)
  also have "\<dots> \<le> 2 ^ 1024 * (1 / 8)"
    using x literal_0_1_bounds by (intro mult_mono) simp_all
  also have "\<dots> = pow2 1021" by (simp add: pow2_def)
  finally have m: "\<bar>x * literal_0_1\<bar> \<le> pow2 1021" .
  then have "\<bar>x * literal_0_1\<bar> \<le> pow2 1023" using pow2_mono[of 1021 1023] by linarith
  then have 1: "toNumber (x * literal_0_1) = Num (fl (x * literal_0_1))" by (rule toNumber_Num)
  have "\<bar>fl (x * literal_0_1)\<bar> \<le> pow2 1021" using m by (rule fl_abs_le_pow2)
  moreover have "pow2 1021 + 1 \<le> pow2 1023" by (simp add: pow2_def)
  ultimately have "\<bar>1 + fl (x * literal_0_1)\<bar> \<le> pow2 1023" by linarith
  then have 2: "toNumber (1 + fl (x * literal_0_1)) = Num (fl (1 + fl (x * literal_0_1)))"
    by (rule toNumber_Num)
  show ?thesis
    using assms 1 2 by (simp add: intensityOnInput_def updateLight_fields Let_def)
qed

lemma intensity_PosInf:
  "parseInt v = PosInf \<Longrightarrow> lightIntensity (intensityOnInput v s) = PosInf"
  using literal_0_1_bounds by (simp add: intensityOnInput_def updateLight_fields Let_def)

lemma intensity_nonneg:
  assumes "parseInt v = Num x" "- 10 \<le> x"
  shows "js_nonneg (lightIntensity (intensityOnInput v s))"
proof (cases "x = 1")
  case True
  then show ?thesis using intensity_value[OF assms(1)] by simp
next
  case False
  have "- 10 * literal_0_1 \<le> x * literal_0_1"
    using assms(2) literal_0_1_bounds by (intro mult_right_mono) simp_all
  then have "fl (- 10 * literal_0_1) \<le> fl (x * literal_0_1)" by (rule fl_mono)
  then have "- 1 \<le> fl (x * literal_0_1)" by (simp only: fl_minus_10_tenths)
  then have "0 \<le> 1 + fl (x * literal_0_1)" by linarith
  then have "0 \<le> fl (1 + fl (x * literal_0_1))" by (rule fl_nonneg)
  then show ?thesis using False intensity_value[OF assms(1)] by simp
qed

lemma step_intensity: "js_nonneg (lightIntensity s) \<Longrightarrow> rangeInput e \<Longrightarrow> js_nonneg (lightIntensity (step p s e))"
  by (cases e) (auto simp: rangeInput_def onTick_fields onMouseMove_fields intensity_nonneg intensity_PosInf split: option.split handler.split jsnum.splits)






lemma Math_PI_over_c: "Math_PI / fl (Math_PI / 180) \<le> 180" "0 < fl (Math_PI / 180)"
  by (simp_all only: fl_PI_180) (simp_all add: Math_PI_def)

lemma angleFor_range:
  assumes "accurate p"
  shows "0 \<le> angleFor p m" and "angleFor p m < 360"
proof -
  define atan where "atan = Math_atan2 p (fl (fst m - ORBIT_RADIUS)) (fl (snd m - ORBIT_RADIUS))"
  define c where "c = fl (Math_PI / 180)"
  have a: "\<bar>atan\<bar> \<le> Math_PI" using assms by (simp add: accurate_def atan_def)
  have c: "0 < c" "Math_PI / c \<le> 180" using Math_PI_over_c by (simp_all add: c_def)
  have "\<bar>- atan / c\<bar> = \<bar>atan\<bar> / c" using c by simp
  also have "\<dots> \<le> Math_PI / c" using a c by (simp add: divide_right_mono)
  finally have "\<bar>- atan / c\<bar> \<le> 180" using c by linarith
  then have "- 180 \<le> - atan / c" "- atan / c \<le> 180" by linarith+
  then have "fl (- 180) \<le> fl (- atan / c)" "fl (- atan / c) \<le> fl 180" by (simp_all add: fl_mono)
  then have t1: "- 180 \<le> fl (- atan / c)" "fl (- atan / c) \<le> 180"
    by (simp_all add: fl_numeral fl_neg_numeral)
  let ?t = "fl (fl (- atan / c) + 180)"
  have "fl 0 \<le> ?t" "?t \<le> fl 360" using t1 by (simp_all add: fl_mono)
  then have t2: "0 \<le> ?t" "?t \<le> 360" by (simp_all add: fl_zero fl_numeral)
  have e: "angleFor p m = js_rem ?t 360" by (simp add: angleFor_def atan_def c_def Let_def)
  have "js_rem ?t 360 = (if ?t < 360 then ?t else 0)"
  proof (cases "?t < 360")
    case True
    then show ?thesis using t2 by (simp add: js_rem_id)
  next
    case False
    then have "js_rem ?t 360 = ?t - 360" using t2 by (intro js_rem_wrap) simp_all
    with False t2 show ?thesis by simp
  qed
  then show "0 \<le> angleFor p m" "angleFor p m < 360" using t2 unfolding e by (simp_all split: if_splits)
qed


section \<open>The rounded slider position seen from the centre\<close>

lemma cos_19_tenths_deg: "cos (19 * pi / 1800) < 2499 / 2500"
proof -
  let ?y = "19 * pi / 3600"
  have y: "1 / 61 + 1 / 546750 \<le> ?y" "?y \<le> 1 / 45" using pi_lower pi_less_4 by simp_all
  have "?y ^ 3 \<le> (1 / 45) ^ 3" using y by (intro power_mono) simp_all
  then have y3: "?y ^ 3 / 6 \<le> 1 / 546750" by (simp add: power3_eq_cube)
  have "?y - ?y ^ 3 / 6 \<le> sin ?y" using y by (intro sin_lower) simp
  then have s: "1 / 61 \<le> sin ?y" using y y3 by linarith
  have "(1 / 61)\<^sup>2 \<le> (sin ?y)\<^sup>2" using s by (intro power_mono) simp_all
  then have s2: "1 / 3721 \<le> (sin ?y)\<^sup>2" by (simp add: power2_eq_square)
  have "cos (19 * pi / 1800) = 1 - 2 * (sin ?y)\<^sup>2"
    using cos_double_sin[of ?y] by simp
  then show ?thesis using s2 by linarith
qed

lemma cos_small_angle:
  assumes c: "2499 / 2500 \<le> cos D" and D: "\<bar>D\<bar> < 2 * pi"
  shows "\<bar>D\<bar> \<le> 19 * pi / 1800 \<or> 2 * pi - 19 * pi / 1800 \<le> \<bar>D\<bar>"
proof (rule ccontr)
  assume "\<not> ?thesis"
  then have n: "19 * pi / 1800 < \<bar>D\<bar>" "\<bar>D\<bar> < 2 * pi - 19 * pi / 1800" by simp_all
  have cD: "cos \<bar>D\<bar> = cos D" by simp
  have "cos \<bar>D\<bar> < cos (19 * pi / 1800)"
  proof (cases "\<bar>D\<bar> \<le> pi")
    case True
    show ?thesis using n(1) True by (intro cos_monotone_0_pi) simp_all
  next
    case False
    let ?w = "2 * pi - \<bar>D\<bar>"
    have w: "19 * pi / 1800 < ?w" "?w \<le> pi" using n(2) False by linarith+
    have "cos ?w < cos (19 * pi / 1800)" using w by (intro cos_monotone_0_pi) simp_all
    moreover have "cos ?w = cos \<bar>D\<bar>" by (simp only: cos_2pi_minus)
    ultimately show ?thesis by simp
  qed
  then show False using c cos_19_tenths_deg unfolding cD by linarith
qed

lemma round_trip_cos:
  fixes e1 e2 th :: real
  assumes e: "\<bar>e1\<bar> \<le> 501 / 1000" "\<bar>e2\<bar> \<le> 501 / 1000"
    and X: "X = 27 * sin th + e1" and Y: "Y = - (27 * cos th) + e2"
  shows "2499 / 2500 \<le> cos (pi - atan2 X Y - th)"
proof -
  define u where "u = e1 * sin th - e2 * cos th"
  define v where "v = e1 * cos th + e2 * sin th"
  define w where "w = 27 + u"
  define r where "r = sqrt (Y\<^sup>2 + X\<^sup>2)"
  define phi where "phi = atan2 X Y"
  have sc: "(sin th)\<^sup>2 + (cos th)\<^sup>2 = 1" by simp
  have "(e1 * s - e2 * c)\<^sup>2 + (e1 * c + e2 * s)\<^sup>2 = (e1\<^sup>2 + e2\<^sup>2) * (s\<^sup>2 + c\<^sup>2)"
    for s c :: real
    by (simp add: power2_eq_square algebra_simps)
  then have "u\<^sup>2 + v\<^sup>2 = (e1\<^sup>2 + e2\<^sup>2) * ((sin th)\<^sup>2 + (cos th)\<^sup>2)"
    unfolding u_def v_def .
  then have uv: "u\<^sup>2 + v\<^sup>2 = e1\<^sup>2 + e2\<^sup>2" by (simp only: sc mult_1_right)
  have "\<bar>e1\<bar>\<^sup>2 \<le> (501 / 1000)\<^sup>2" "\<bar>e2\<bar>\<^sup>2 \<le> (501 / 1000)\<^sup>2"
    by (rule power_mono[OF e(1) abs_ge_zero], rule power_mono[OF e(2) abs_ge_zero])
  then have ee: "e1\<^sup>2 + e2\<^sup>2 \<le> 251001 / 500000" by (simp add: power2_eq_square)
  have u2: "u\<^sup>2 \<le> 251001 / 500000" and v2: "v\<^sup>2 \<le> 251001 / 500000"
    using uv ee zero_le_power2[of u] zero_le_power2[of v] by linarith+
  have "u\<^sup>2 \<le> 1" using u2 by simp
  then have "\<bar>u\<bar> \<le> 1" by (simp only: abs_square_le_1)
  then have w26: "26 \<le> w" by (simp add: w_def)
  have "26\<^sup>2 \<le> w\<^sup>2" using w26 by (intro power_mono) simp_all
  then have w2: "676 \<le> w\<^sup>2" by simp
  have "(27 * s + e1)\<^sup>2 + (- (27 * c) + e2)\<^sup>2 =
        729 * (s\<^sup>2 + c\<^sup>2) + 54 * (e1 * s - e2 * c) + (e1\<^sup>2 + e2\<^sup>2)"
    for s c :: real
    by (simp add: power2_eq_square algebra_simps)
  then have "X\<^sup>2 + Y\<^sup>2 = 729 * ((sin th)\<^sup>2 + (cos th)\<^sup>2) + 54 * u + (e1\<^sup>2 + e2\<^sup>2)"
    unfolding X Y u_def .
  then have "X\<^sup>2 + Y\<^sup>2 = 729 + 54 * u + (u\<^sup>2 + v\<^sup>2)" by (simp only: sc uv mult_1_right)
  also have "\<dots> = w\<^sup>2 + v\<^sup>2" by (simp add: w_def power2_eq_square algebra_simps)
  finally have XY: "Y\<^sup>2 + X\<^sup>2 = w\<^sup>2 + v\<^sup>2" by (simp add: add.commute)
  have pos: "0 < Y\<^sup>2 + X\<^sup>2" using XY w2 zero_le_power2[of v] by linarith
  then have r0: "0 < r" by (simp add: r_def)
  have "Y \<noteq> 0 \<or> X \<noteq> 0" using pos by auto
  then have polar: "Y = r * cos phi" "X = r * sin phi"
    using atan2_polar_form[of Y X] by (simp_all add: r_def phi_def)
  have "(27 * s + e1) * s - (- (27 * c) + e2) * c = 27 * (s\<^sup>2 + c\<^sup>2) + (e1 * s - e2 * c)"
    for s c :: real
    by (simp add: power2_eq_square algebra_simps)
  then have num: "X * sin th - Y * cos th = 27 * ((sin th)\<^sup>2 + (cos th)\<^sup>2) + u"
    unfolding X Y u_def .
  have "cos (pi - phi - th) = cos (pi - (phi + th))" by (simp add: algebra_simps)
  also have "\<dots> = - cos (phi + th)" by (simp only: cos_pi_minus)
  also have "\<dots> = sin phi * sin th - cos phi * cos th" by (simp add: cos_add)
  finally have cs: "cos (pi - phi - th) = sin phi * sin th - cos phi * cos th" .
  have "r * cos (pi - phi - th) = (r * sin phi) * sin th - (r * cos phi) * cos th"
    by (simp only: cs right_diff_distrib mult.assoc)
  also have "\<dots> = w" by (simp only: polar[symmetric] num sc w_def mult_1_right)
  finally have rc: "r * cos (pi - phi - th) = w" .
  have "w\<^sup>2 + v\<^sup>2 \<le> (w * (2500 / 2499))\<^sup>2"
  proof -
    have "(w * (2500 / 2499))\<^sup>2 = w\<^sup>2 + w\<^sup>2 * (4999 / 6245001)"
      by (simp add: power2_eq_square algebra_simps)
    moreover have "676 * (4999 / 6245001) \<le> w\<^sup>2 * (4999 / 6245001)"
      using w2 by (intro mult_right_mono) simp_all
    ultimately show ?thesis using v2 by simp
  qed
  then have "r \<le> w * (2500 / 2499)"
    unfolding r_def XY using w26 by (intro real_le_lsqrt) simp_all
  then have "r * (2499 / 2500) \<le> w" by simp
  then have "r * (2499 / 2500) \<le> r * cos (pi - phi - th)" by (simp only: rc)
  then have "2499 / 2500 \<le> cos (pi - phi - th)" using r0 by (simp only: mult_le_cancel_left_pos)
  then show ?thesis by (simp only: phi_def)
qed

lemma rad_near:
  assumes a: "0 \<le> a" "a < 360"
  defines "rad \<equiv> fl (fl (a * Math_PI) / 180)"
  shows "0 \<le> rad" "rad \<le> 7" "\<bar>rad - a * pi / 180\<bar> \<le> 3 / 1000000"
proof -
  let ?x0 = "a * Math_PI"
  let ?r1 = "fl ?x0"
  have P: "3 < Math_PI" "Math_PI < 4" by (rule Math_PI_bounds)+
  have x0: "0 \<le> ?x0" "?x0 \<le> 1440"
    using a P mult_mono[of a 360 Math_PI 4] by simp_all
  have r1n: "0 \<le> ?r1" using x0 by (intro fl_nonneg)
  have "\<bar>?r1 - ?x0\<bar> \<le> \<bar>?x0\<bar> / 2 ^ 53" by (rule fl_rel_err)
  also have "\<dots> \<le> 1440 / 2 ^ 53"
  proof -
    have "\<bar>?x0\<bar> \<le> 1440" using x0 by (simp only: abs_of_nonneg)
    then show ?thesis by (rule divide_right_mono) simp
  qed
  finally have e1: "\<bar>?r1 - ?x0\<bar> \<le> 1440 / 2 ^ 53" .
  have "1440 / 2 ^ 53 \<le> (1::real)" by simp
  then have r1u: "?r1 \<le> 1441" using x0(2) e1 by linarith
  show "0 \<le> rad" unfolding rad_def using r1n by (intro fl_nonneg) simp
  have "\<bar>rad - ?r1 / 180\<bar> \<le> \<bar>?r1 / 180\<bar> / 2 ^ 53" unfolding rad_def by (rule fl_rel_err)
  also have "\<dots> \<le> 9 / 2 ^ 53"
  proof -
    have "\<bar>?r1 / 180\<bar> = ?r1 / 180" using r1n by simp
    then have "\<bar>?r1 / 180\<bar> \<le> 9" using r1u by linarith
    then show ?thesis by (rule divide_right_mono) simp
  qed
  finally have e2: "\<bar>rad - ?r1 / 180\<bar> \<le> 9 / 2 ^ 53" .
  have "\<bar>?r1 / 180 - ?x0 / 180\<bar> = \<bar>?r1 - ?x0\<bar> / 180" by (simp add: diff_divide_distrib[symmetric])
  then have e3: "\<bar>?r1 / 180 - ?x0 / 180\<bar> \<le> 8 / 2 ^ 53" using e1 by simp
  have "\<bar>?x0 / 180 - a * pi / 180\<bar> = a * \<bar>Math_PI - pi\<bar> / 180"
    using a by (simp add: diff_divide_distrib[symmetric] right_diff_distrib[symmetric] abs_mult)
  also have "\<dots> \<le> 360 * (1 / 1000000) / 180"
    using a Math_PI_near_pi by (intro divide_right_mono mult_mono) simp_all
  finally have e4: "\<bar>?x0 / 180 - a * pi / 180\<bar> \<le> 2 / 1000000" by simp
  have k: "9 / 2 ^ 53 \<le> (1 / 10000000 :: real)" "8 / 2 ^ 53 \<le> (1 / 10000000 :: real)" by simp_all
  have e2': "\<bar>rad - ?r1 / 180\<bar> \<le> 1 / 10000000" using e2 k(1) by (rule order_trans)
  have e3': "\<bar>?r1 / 180 - ?x0 / 180\<bar> \<le> 1 / 10000000" using e3 k(2) by (rule order_trans)
  show n: "\<bar>rad - a * pi / 180\<bar> \<le> 3 / 1000000" using e2' e3' e4 by linarith
  have "a * pi / 180 \<le> 2 * pi" using a pi_gt_zero by simp
  then have "a * pi / 180 \<le> 63 / 10" using pi_upper by linarith
  then show "rad \<le> 7" using n by linarith
qed

lemma libmError_le: "libmError \<le> 1 / 1000000"
  by (simp add: libmError_def)

lemma scaled_near:
  fixes m v :: real
  assumes m: "\<bar>m - v\<bar> \<le> 4 / 1000000" and v: "\<bar>v\<bar> \<le> 1"
  shows "\<bar>of_int (Math_round (fl (27 * m))) - 27 * v\<bar> \<le> 501 / 1000"
proof -
  have m2: "\<bar>m\<bar> \<le> 2" using m v by linarith
  have "\<bar>fl (27 * m) - 27 * m\<bar> \<le> \<bar>27 * m\<bar> / 2 ^ 53" by (rule fl_rel_err)
  also have "\<dots> \<le> 54 / 2 ^ 53"
  proof -
    have "\<bar>27 * m\<bar> = 27 * \<bar>m\<bar>" by (simp add: abs_mult)
    then have "\<bar>27 * m\<bar> \<le> 54" using m2 by linarith
    then show ?thesis by (rule divide_right_mono) simp
  qed
  also have "\<dots> \<le> 1 / 10000" by simp
  finally have e1: "\<bar>fl (27 * m) - 27 * m\<bar> \<le> 1 / 10000" .
  have "27 * m - 27 * v = 27 * (m - v)" by (simp add: algebra_simps)
  then have "\<bar>27 * m - 27 * v\<bar> = 27 * \<bar>m - v\<bar>" by (simp only: abs_mult abs_numeral)
  then have e2: "\<bar>27 * m - 27 * v\<bar> \<le> 108 / 1000000" using m by linarith
  have e3: "\<bar>of_int (Math_round (fl (27 * m))) - fl (27 * m)\<bar> \<le> 1 / 2"
    by (rule Math_round_bounds)
  show ?thesis using e1 e2 e3 by linarith
qed

lemma sliderXY_near:
  assumes acc: "accurate p" and a: "0 \<le> a" "a < 360"
  shows "\<bar>of_int (fst (sliderXY p a)) - 27 * sin (a * pi / 180)\<bar> \<le> 501 / 1000"
    and "\<bar>of_int (snd (sliderXY p a)) - - (27 * cos (a * pi / 180))\<bar> \<le> 501 / 1000"
proof -
  define rad where "rad = fl (fl (a * Math_PI) / 180)"
  let ?th = "a * pi / 180"
  have r: "0 \<le> rad" "rad \<le> 7" "\<bar>rad - ?th\<bar> \<le> 3 / 1000000"
    unfolding rad_def using a by (rule rad_near)+
  have ms: "\<bar>Math_sin p rad - sin rad\<bar> \<le> libmError"
    and mc: "\<bar>Math_cos p rad - cos rad\<bar> \<le> libmError"
    using acc r(1,2) by (simp_all add: accurate_def)
  have ls: "\<bar>sin rad - sin ?th\<bar> \<le> \<bar>rad - ?th\<bar>" by (rule sin_lipschitz)
  have lc: "\<bar>cos rad - cos ?th\<bar> \<le> \<bar>rad - ?th\<bar>" by (rule cos_lipschitz)
  have s: "\<bar>Math_sin p rad - sin ?th\<bar> \<le> 4 / 1000000"
    using ms ls r(3) libmError_le by linarith
  have c: "\<bar>- Math_cos p rad - - cos ?th\<bar> \<le> 4 / 1000000"
    using mc lc r(3) libmError_le by linarith
  have x: "fst (sliderXY p a) = Math_round (fl (27 * Math_sin p rad))"
    and y: "snd (sliderXY p a) = Math_round (fl (27 * - Math_cos p rad))"
    by (simp_all add: sliderXY_def Let_def rad_def ORBIT_RADIUS_def)
  have s1: "\<bar>sin ?th\<bar> \<le> 1" and c1: "\<bar>- cos ?th\<bar> \<le> 1" by simp_all
  show "\<bar>of_int (fst (sliderXY p a)) - 27 * sin ?th\<bar> \<le> 501 / 1000"
    unfolding x using s s1 by (rule scaled_near)
  have "\<bar>of_int (Math_round (fl (27 * - Math_cos p rad))) - 27 * - cos ?th\<bar> \<le> 501 / 1000"
    using c c1 by (rule scaled_near)
  then show "\<bar>of_int (snd (sliderXY p a)) - - (27 * cos ?th)\<bar> \<le> 501 / 1000"
    unfolding y by simp
qed

lemma sliderXY_small:
  assumes acc: "accurate p" and a: "0 \<le> a" "a < 360"
  shows "\<bar>fst (sliderXY p a)\<bar> \<le> 28" and "\<bar>snd (sliderXY p a)\<bar> \<le> 28"
proof -
  let ?th = "a * pi / 180"
  have s: "\<bar>27 * sin ?th\<bar> \<le> 27" and c: "\<bar>- (27 * cos ?th)\<bar> \<le> 27"
    by (simp_all add: abs_mult)
  have "\<bar>(of_int (fst (sliderXY p a)) :: real)\<bar> \<le> 28"
    using sliderXY_near(1)[OF acc a] s by linarith
  then show "\<bar>fst (sliderXY p a)\<bar> \<le> 28" by linarith
  have "\<bar>(of_int (snd (sliderXY p a)) :: real)\<bar> \<le> 28"
    using sliderXY_near(2)[OF acc a] c by linarith
  then show "\<bar>snd (sliderXY p a)\<bar> \<le> 28" by linarith
qed

lemma c_facts:
  defines "c \<equiv> fl (Math_PI / 180)"
  shows "0 < c" "1 / c \<le> 58" "\<bar>pi - 180 * c\<bar> \<le> 11 / 10000000"
proof -
  have v: "c = 5030569068109113 / 2 ^ 58" unfolding c_def by (rule fl_PI_180)
  show "0 < c" unfolding v by simp
  show "1 / c \<le> 58" unfolding v by simp
  have "\<bar>180 * c - Math_PI\<bar> \<le> 1 / 10000000" unfolding v Math_PI_def by simp
  then show "\<bar>pi - 180 * c\<bar> \<le> 11 / 10000000" using Math_PI_near_pi by linarith
qed

lemma angleFor_near:
  fixes X Y :: int
  assumes acc: "accurate p" and X: "\<bar>X\<bar> \<le> 2 ^ 53" and Y: "\<bar>Y\<bar> \<le> 2 ^ 53"
  defines "A \<equiv> 180 - atan2 (of_int X) (of_int Y) * 180 / pi"
  defines "a' \<equiv> angleFor p (of_int X + ORBIT_RADIUS, of_int Y + ORBIT_RADIUS)"
  shows "\<bar>a' - A\<bar> \<le> 1 / 1000 \<or> (a' = 0 \<and> 360 - 1 / 1000 \<le> A)"
proof -
  define T where "T = atan2 (of_int X) (of_int Y)"
  define atn where "atn = Math_atan2 p (of_int X) (of_int Y)"
  define c where "c = fl (Math_PI / 180)"
  define k where "k = 1 / c"
  define d1 where "d1 = atn - T"
  define d2 where "d2 = pi - 180 * c"
  have c: "0 < c" "1 / c \<le> 58" "\<bar>pi - 180 * c\<bar> \<le> 11 / 10000000"
    unfolding c_def by (rule c_facts)+
  have k: "0 < k" "k \<le> 58" "c * k = 1" using c by (simp_all add: k_def)
  have Tb: "\<bar>T\<bar> \<le> pi" using atan2_bounds[of "of_int X" "of_int Y"] by (simp add: T_def abs_le_iff)
  have "\<bar>d1\<bar> \<le> libmError" and ab: "\<bar>atn\<bar> \<le> Math_PI"
    using acc by (simp_all add: accurate_def atn_def d1_def T_def)
  then have d1: "\<bar>d1\<bar> \<le> 1 / 1000000" using libmError_le by linarith
  have d2: "\<bar>d2\<bar> \<le> 11 / 10000000" using c(3) by (simp add: d2_def)
  define u1 where "u1 = - atn / c"
  define t1 where "t1 = fl u1"
  define t2 where "t2 = fl (t1 + 180)"
  have u1k: "u1 = - atn * k" by (simp add: u1_def k_def)
  have pc: "Math_PI / c \<le> 180" using Math_PI_over_c(1) by (simp add: c_def)
  have "\<bar>u1\<bar> = \<bar>atn\<bar> / c" using c(1) by (simp add: u1_def)
  also have "\<dots> \<le> Math_PI / c" using ab c(1) by (simp add: divide_right_mono)
  finally have u1b: "\<bar>u1\<bar> \<le> 180" using pc by linarith
  have "\<bar>t1 - u1\<bar> \<le> \<bar>u1\<bar> / 2 ^ 53" unfolding t1_def by (rule fl_rel_err)
  also have "\<dots> \<le> 180 / 2 ^ 53" using u1b by (rule divide_right_mono) simp
  also have "\<dots> \<le> 1 / 10000000" by simp
  finally have e1: "\<bar>t1 - u1\<bar> \<le> 1 / 10000000" .
  have "fl (- 180) \<le> fl u1" "fl u1 \<le> fl 180" using u1b by (simp_all add: fl_mono abs_le_iff)
  then have t1b: "- 180 \<le> t1" "t1 \<le> 180" by (simp_all add: t1_def fl_numeral fl_neg_numeral)
  have "\<bar>t2 - (t1 + 180)\<bar> \<le> \<bar>t1 + 180\<bar> / 2 ^ 53" unfolding t2_def by (rule fl_rel_err)
  also have "\<dots> \<le> 360 / 2 ^ 53"
  proof -
    have "\<bar>t1 + 180\<bar> \<le> 360" using t1b by linarith
    then show ?thesis by (rule divide_right_mono) simp
  qed
  also have "\<dots> \<le> 1 / 10000000" by simp
  finally have e2: "\<bar>t2 - (t1 + 180)\<bar> \<le> 1 / 10000000" .
  have "fl 0 \<le> t2" "t2 \<le> fl 360" using t1b by (simp_all add: t2_def fl_mono)
  then have t2b: "0 \<le> t2" "t2 \<le> 360" by (simp_all add: fl_zero fl_numeral)
  have "T * d2 * k / pi = T * k - 180 * T * (c * k) / pi"
    by (simp add: d2_def field_simps)
  then have i2: "T * d2 * k / pi = T * k - 180 * T / pi" by (simp only: k(3) mult_1_right)
  have "u1 = - d1 * k - T * k" by (simp add: u1k d1_def algebra_simps)
  then have id: "u1 + T * 180 / pi = - d1 * k - T * d2 * k / pi" using i2 by simp
  have "\<bar>d1 * k\<bar> = \<bar>d1\<bar> * k" using k(1) by (simp add: abs_mult)
  also have "\<dots> \<le> (1 / 1000000) * 58" using d1 k by (intro mult_mono) simp_all
  finally have "\<bar>d1 * k\<bar> \<le> (1 / 1000000) * 58" .
  moreover have "(1 / 1000000) * 58 \<le> (58 / 1000000 :: real)" by simp
  ultimately have b1: "\<bar>d1 * k\<bar> \<le> 58 / 1000000" by (rule order_trans)
  have "\<bar>T * d2 * k / pi\<bar> = (\<bar>T\<bar> / pi) * (\<bar>d2\<bar> * k)" using k(1) by (simp add: abs_mult)
  also have "\<dots> \<le> 1 * (11 / 10000000 * 58)"
  proof (intro mult_mono)
    show "\<bar>T\<bar> / pi \<le> 1" using Tb by simp
    show "\<bar>d2\<bar> \<le> 11 / 10000000" by (rule d2)
    show "k \<le> 58" by (rule k)
  qed (simp_all add: k(1) less_imp_le[OF k(1)])
  finally have "\<bar>T * d2 * k / pi\<bar> \<le> 1 * (11 / 10000000 * 58)" .
  moreover have "1 * (11 / 10000000 * 58) \<le> (64 / 1000000 :: real)" by simp
  ultimately have b2: "\<bar>T * d2 * k / pi\<bar> \<le> 64 / 1000000" by (rule order_trans)
  have eu: "\<bar>u1 + T * 180 / pi\<bar> \<le> 122 / 1000000" unfolding id using b1 b2 by linarith
  have A: "A = 180 - T * 180 / pi" by (simp add: A_def T_def)
  have near: "\<bar>t2 - A\<bar> \<le> 1 / 1000" unfolding A using eu e1 e2 by linarith
  have e: "a' = js_rem t2 360"
    by (simp add: a'_def angleFor_def Let_def fl_int[OF X] fl_int[OF Y] t2_def t1_def u1_def atn_def c_def)
  show ?thesis
  proof (cases "t2 < 360")
    case True
    then have "a' = t2" unfolding e using t2b by (simp add: js_rem_id)
    then show ?thesis using near by simp
  next
    case False
    then have t: "t2 = 360" using t2b by simp
    have "js_rem t2 360 = t2 - 360" using t2b False by (intro js_rem_wrap) simp_all
    then have "a' = 0" unfolding e t by simp
    moreover have "360 - 1 / 1000 \<le> A" using near t by linarith
    ultimately show ?thesis by simp
  qed
qed

lemma round_trip_core:
  assumes acc: "accurate p" and a: "0 \<le> a" "a < 360"
  defines "X \<equiv> fst (sliderXY p a)" and "Y \<equiv> snd (sliderXY p a)"
  defines "a' \<equiv> angleFor p (of_int X + ORBIT_RADIUS, of_int Y + ORBIT_RADIUS)"
  shows "\<bar>a' - a\<bar> \<le> 2 \<or> 358 \<le> \<bar>a' - a\<bar>"
proof -
  define th where "th = a * pi / 180"
  define A where "A = 180 - atan2 (of_int X) (of_int Y) * 180 / pi"
  define D where "D = pi - atan2 (of_int X) (of_int Y) - th"
  have X1: "\<bar>of_int X - 27 * sin th\<bar> \<le> 501 / 1000"
    and Y1: "\<bar>of_int Y - - (27 * cos th)\<bar> \<le> 501 / 1000"
    unfolding X_def Y_def th_def by (rule sliderXY_near[OF acc a])+
  have sm: "\<bar>X\<bar> \<le> 28" "\<bar>Y\<bar> \<le> 28" unfolding X_def Y_def by (rule sliderXY_small[OF acc a])+
  have big: "(28::int) \<le> 2 ^ 53" by simp
  have n: "\<bar>a' - A\<bar> \<le> 1 / 1000 \<or> (a' = 0 \<and> 360 - 1 / 1000 \<le> A)"
    unfolding a'_def A_def using sm big by (intro angleFor_near[OF acc]) linarith+
  have Ab: "0 \<le> A" "A < 360"
  proof -
    have b: "- pi < atan2 (of_int X) (of_int Y)" "atan2 (of_int X) (of_int Y) \<le> pi"
      using atan2_bounds[of "of_int X" "of_int Y"] by simp_all
    have "atan2 (of_int X) (of_int Y) * 180 / pi \<le> pi * 180 / pi"
      using b(2) by (intro divide_right_mono mult_right_mono) simp_all
    then show "0 \<le> A" by (simp add: A_def)
    have "- pi * 180 / pi < atan2 (of_int X) (of_int Y) * 180 / pi"
      using b(1) by (intro divide_strict_right_mono mult_strict_right_mono) simp_all
    then show "A < 360" by (simp add: A_def)
  qed
  have Deq: "D = (A - a) * (pi / 180)" by (simp add: D_def A_def th_def field_simps)
  have "\<bar>A - a\<bar> < 360" using a Ab by linarith
  then have "\<bar>A - a\<bar> * (pi / 180) < 360 * (pi / 180)"
    by (intro mult_strict_right_mono) simp_all
  then have Dlt: "\<bar>D\<bar> < 2 * pi" by (simp add: Deq abs_mult)
  have "2499 / 2500 \<le> cos (pi - atan2 (of_int X) (of_int Y) - th)"
  proof (rule round_trip_cos)
    show "\<bar>of_int X - 27 * sin th\<bar> \<le> 501 / 1000" by (rule X1)
    show "\<bar>of_int Y + 27 * cos th\<bar> \<le> 501 / 1000" using Y1 by simp
    show "of_int X = 27 * sin th + (of_int X - 27 * sin th)" by simp
    show "of_int Y = - (27 * cos th) + (of_int Y + 27 * cos th)" by simp
  qed
  then have "\<bar>D\<bar> \<le> 19 * pi / 1800 \<or> 2 * pi - 19 * pi / 1800 \<le> \<bar>D\<bar>"
    unfolding D_def[symmetric] using Dlt by (rule cos_small_angle)
  moreover have "\<bar>D\<bar> = \<bar>A - a\<bar> * (pi / 180)" by (simp add: Deq abs_mult)
  ultimately have "\<bar>A - a\<bar> * (pi / 180) \<le> (19 / 10) * (pi / 180) \<or>
      (3581 / 10) * (pi / 180) \<le> \<bar>A - a\<bar> * (pi / 180)"
    by (simp add: field_simps)
  moreover have p: "0 < pi / 180" by simp
  ultimately have 6: "\<bar>A - a\<bar> \<le> 19 / 10 \<or> 3581 / 10 \<le> \<bar>A - a\<bar>"
    by (simp only: mult_le_cancel_right_pos[OF p])
  show ?thesis using n 6 a Ab by linarith
qed

section \<open>The timer on the grid of doubles, and concrete inputs\<close>






lemma parseInt_examples:
  "parseInt (utf16 ''1'') = Num 1" "parseInt (utf16 ''5'') = Num 5" "parseInt (utf16 ''10'') = Num 10"
  "parseInt (utf16 ''7'') = Num 7" "parseInt (utf16 ''0'') = Num 0" "parseInt (utf16 ''5px'') = Num 5"
  "parseInt (utf16 ''-20'') = Num (- 20)" "parseInt (utf16 ''abc'') = NaN"
  using toNumber_int[of 1] toNumber_int[of 5] toNumber_int[of 10] toNumber_int[of 7]
    toNumber_int[of 0] toNumber_int[of "- 20"]
  by (simp_all add: parseInt_def utf16_def isWhiteSpace_def isDigit_def digitVal_def Let_def)

lemma sliderXY_1:
  assumes acc: "accurate p"
  shows "sliderXY p 1 = (0, - 27)"
proof -
  let ?t = "1 * pi / 180"
  have t: "0 \<le> ?t" "?t \<le> 175 / 10000" using pi_upper by simp_all
  have s0: "0 \<le> sin ?t" using t pi_ge_3 by (intro sin_ge_zero) linarith+
  have s1: "sin ?t \<le> ?t" using t(1) by (rule sin_x_le_x)
  have "?t\<^sup>2 \<le> (175 / 10000)\<^sup>2" using t by (intro power_mono) simp_all
  then have "?t\<^sup>2 / 2 \<le> 2 / 10000" by (simp add: power2_eq_square)
  then have c0: "1 - 2 / 10000 \<le> cos ?t" using cos_lower[of ?t] by linarith
  have c1: "cos ?t \<le> 1" by simp
  have h: "(0::real) \<le> 1" "(1::real) < 360" by simp_all
  note n = sliderXY_near[OF acc h]
  have "\<bar>real_of_int (fst (sliderXY p 1))\<bar> < 1" using n(1) s0 s1 t by linarith
  then have x: "fst (sliderXY p 1) = 0" by linarith
  have "- 28 < real_of_int (snd (sliderXY p 1))" "real_of_int (snd (sliderXY p 1)) < - 26"
    using n(2) c0 c1 by linarith+
  then have y: "snd (sliderXY p 1) = - 27" by linarith
  show ?thesis using x y by (simp add: prod_eq_iff)
qed

lemma angleFor_top:
  assumes acc: "accurate p"
  shows "0 \<le> angleFor p (27, 0)" "angleFor p (27, 0) \<le> 1 / 1000"
proof -
  have b: "\<bar>0::int\<bar> \<le> 2 ^ 53" "\<bar>- 27 :: int\<bar> \<le> 2 ^ 53" by simp_all
  have A: "180 - atan2 (of_int 0) (of_int (- 27)) * 180 / pi = 0" by (simp add: atan2_def)
  have e: "angleFor p (of_int 0 + ORBIT_RADIUS, of_int (- 27) + ORBIT_RADIUS) = angleFor p (27, 0)"
    by (simp add: ORBIT_RADIUS_def)
  show "0 \<le> angleFor p (27, 0)" using acc by (rule angleFor_range)
  then show "angleFor p (27, 0) \<le> 1 / 1000"
    using angleFor_near[OF acc b] unfolding A e by linarith
qed

lemma angleFor_bottom: "angleFor exampleHost (27, 54) = 180"
proof -
  have "Math_atan2 exampleHost 0 27 = 0"
    using Math_PI_bounds by (simp add: exampleHost_def atan2_def fl_zero)
  then show ?thesis
    by (simp add: angleFor_def ORBIT_RADIUS_def Let_def fl_zero fl_numeral js_rem_id)
qed

lemma intensity_examples:
  "lightIntensity (intensityOnInput (utf16 ''1'') s) = Num 1"
  "lightIntensity (intensityOnInput (utf16 ''5'') s) = Num (3 / 2)"
  "lightIntensity (intensityOnInput (utf16 ''10'') s) = Num 2"
  "lightIntensity (intensityOnInput (utf16 ''7'') s) = Num (7656119366529844 / 2 ^ 52)"
  "lightIntensity (intensityOnInput (utf16 ''5px'') s) = Num (3 / 2)"
  "lightIntensity (intensityOnInput (utf16 ''-20'') s) = Num (- 1)"
  "lightIntensity (intensityOnInput (utf16 ''abc'') s) = NaN"
proof -
  show "lightIntensity (intensityOnInput (utf16 ''1'') s) = Num 1"
    using intensity_value[OF parseInt_examples(1), of s] by simp
  have 5: "fl (1 + fl (5 * literal_0_1)) = 3 / 2"
    by (simp only: fl_5_tenths) (simp add: fl_3_halves)
  show "lightIntensity (intensityOnInput (utf16 ''5'') s) = Num (3 / 2)"
    using intensity_value[OF parseInt_examples(2), of s] by (simp only: 5) simp
  have 10: "fl (1 + fl (10 * literal_0_1)) = 2"
    by (simp only: fl_10_tenths) (simp add: fl_numeral)
  show "lightIntensity (intensityOnInput (utf16 ''10'') s) = Num 2"
    using intensity_value[OF parseInt_examples(3), of s] by (simp only: 10) simp
  have 7: "fl (1 + fl (7 * literal_0_1)) = 7656119366529844 / 2 ^ 52"
    by (simp only: fl_7_tenths fl_1_plus_7_tenths)
  show "lightIntensity (intensityOnInput (utf16 ''7'') s) = Num (7656119366529844 / 2 ^ 52)"
    using intensity_value[OF parseInt_examples(4), of s] by (simp only: 7) simp
  show "lightIntensity (intensityOnInput (utf16 ''5px'') s) = Num (3 / 2)"
    using intensity_value[OF parseInt_examples(6), of s] by (simp only: 5) simp
  have "fl (1 + fl (- 20 * literal_0_1)) = fl (- 1)"
    by (simp only: fl_minus_20_tenths) simp
  then have 20: "fl (1 + fl (- 20 * literal_0_1)) = - 1" by (simp add: fl_neg fl_one)
  show "lightIntensity (intensityOnInput (utf16 ''-20'') s) = Num (- 1)"
    using intensity_value[OF parseInt_examples(7), of s] by (simp only: 20) simp
  show "lightIntensity (intensityOnInput (utf16 ''abc'') s) = NaN"
    by (simp add: intensityOnInput_def updateLight_fields Let_def parseInt_examples)
qed


section \<open>The angle-to-colour mapping\<close>

text \<open>
  Claim C1, as amended. For every angle \<open>d\<close> in [0, 360] the colours set by
  \<open>setLightAndUIFromAngle\<close> are those of the band whose upper bound is the first
  strictly greater than \<open>d\<close>, and at 360 those of the last band. The upper bounds are
  40, 80, ..., 360. An angle exactly at one of the bounds 40, ..., 320 belongs to the band
  above it, the one that starts there, and not to the band below it: the comparison is a
  strict less-than.
\<close>

theorem angleColors_bands:
  "(0 \<le> d \<and> d \<le> 360 \<longrightarrow> angleColors d = bandFor d) \<and>
   (0 \<le> d \<and> d < 360 \<longrightarrow>
      (\<exists>b. find (\<lambda>b. d < fst b) colorBands = Some b \<and> angleColors d = snd b)) \<and>
   angleColors 360 = snd (last colorBands) \<and>
   map fst colorBands = [40, 80, 120, 160, 200, 240, 280, 320, 360] \<and>
   list_all (\<lambda>(lo, hi). angleColors (fst lo) = snd hi \<and> angleColors (fst lo) \<noteq> snd lo)
     (zip colorBands (tl colorBands))"
  by (simp add: angleColors_def bandFor_def colorBands_def)

text \<open>
  Claim C1, at the angle 40: it is in [0, 360), the first upper bound above it is 80, and
  the colours are those of the light blue band.
\<close>

theorem angleColors_bands_witness:
  "(0::real) \<le> 40 \<and> (40::real) < 360 \<and>
   find (\<lambda>b. 40 < fst b) colorBands = Some (80, 0xadd8e6, ''lightblue'', ''lightblue'') \<and>
   angleColors 40 = bandFor 40 \<and>
   angleColors 40 = (0xadd8e6, ''lightblue'', ''lightblue'')"
  using angleColors_bands[of 40] by (simp add: colorBands_def bandFor_def)

text \<open>
  Claim C1 as stated fails at the boundary 40: the band below it is the one with upper
  bound 40 (white), and the colours returned are not that band's but those of the band
  with upper bound 80.
\<close>

theorem angleColors_boundary_counterexample:
  "fst (colorBands ! 0) = 40 \<and> fst (colorBands ! 1) = 80 \<and>
   angleColors 40 \<noteq> snd (colorBands ! 0) \<and> angleColors 40 = snd (colorBands ! 1)"
  by (simp add: angleColors_def colorBands_def)

text \<open>
  Claim C9. An angle in [240, 280) and an angle in [280, 320) give the same light colour,
  \<open>0xa52a2a\<close>, while the display colours written to the page differ (brown and
  purple).
\<close>

theorem brown_purple_same_light:
  "240 \<le> d \<Longrightarrow> d < 280 \<Longrightarrow> 280 \<le> d' \<Longrightarrow> d' < 320 \<Longrightarrow>
     lightColor (setLightAndUIFromAngle d s) = 0xa52a2a \<and>
     lightColor (setLightAndUIFromAngle d' s') = lightColor (setLightAndUIFromAngle d s) \<and>
     circleBackground (setLightAndUIFromAngle d s) = ''brown'' \<and>
     circleBackground (setLightAndUIFromAngle d' s') = ''purple'' \<and>
     circleBackground (setLightAndUIFromAngle d' s') \<noteq> circleBackground (setLightAndUIFromAngle d s) \<and>
     circleBoxShadow (setLightAndUIFromAngle d' s') \<noteq> circleBoxShadow (setLightAndUIFromAngle d s)"
  by (simp add: setLight_fields angleColors_def)

text \<open>
  Claim C9, at the angles 250 and 300.
\<close>

theorem brown_purple_same_light_witness:
  "(240::real) \<le> 250 \<and> (250::real) < 280 \<and> (280::real) \<le> 300 \<and> (300::real) < 320 \<and>
   lightColor (setLightAndUIFromAngle 300 loaded) = lightColor (setLightAndUIFromAngle 250 loaded) \<and>
   circleBackground (setLightAndUIFromAngle 300 loaded) \<noteq> circleBackground (setLightAndUIFromAngle 250 loaded)"
  using brown_purple_same_light[of 250 300 loaded loaded] by simp

text \<open>
  Claim C10. For an angle above 360 no comparison of the chain holds: the locals keep
  their initial values, so the light colour becomes white \<open>0xFFFFFF\<close>, the light is
  rebuilt with it, and the function returns normally. Below 0 the first comparison holds
  and the colour is white as well; whatever the angle, the light colour set is one of the
  band colours.
\<close>

theorem angle_above_360_white:
  "(360 < d \<longrightarrow>
      angleColors d = (0xFFFFFF, ''white'', ''white'') \<and>
      lightColor (setLightAndUIFromAngle d s) = 0xFFFFFF \<and>
      light (setLightAndUIFromAngle d s) = Some \<lparr>color = 0xFFFFFF, intensity = lightIntensity s\<rparr> \<and>
      circleBackground (setLightAndUIFromAngle d s) = ''white'') \<and>
   (d < 0 \<longrightarrow>
      angleColors d = (0xFFFFFF, ''white'', ''white'') \<and>
      lightColor (setLightAndUIFromAngle d s) = 0xFFFFFF) \<and>
   lightColor (setLightAndUIFromAngle d s) \<in> set bandColorValues"
  by (simp add: setLight_fields angleColors_in_bands) (simp add: angleColors_def)

text \<open>
  Claim C10, at the angles 400 and -5.
\<close>

theorem angle_above_360_white_witness:
  "(360::real) < 400 \<and> lightColor (setLightAndUIFromAngle 400 loaded) = 0xFFFFFF \<and>
   light (setLightAndUIFromAngle 400 loaded) =
     Some \<lparr>color = 0xFFFFFF, intensity = lightIntensity loaded\<rparr> \<and>
   (- 5 :: real) < 0 \<and> lightColor (setLightAndUIFromAngle (- 5) loaded) = 0xFFFFFF"
  using angle_above_360_white[of 400 loaded] angle_above_360_white[of "- 5" loaded] by simp

section \<open>From an angle to the slider and back\<close>

text \<open>
  Claim C2, as amended. On an engine whose \<open>Math.sin\<close>, \<open>Math.cos\<close> and \<open>Math.atan2\<close>
  are accurate, for every angle \<open>a\<close> in [0, 360): \<open>positionSlider\<close> computes, in double
  arithmetic, the offsets \<open>X\<close> and \<open>Y\<close> of the slider's centre from the centre of the
  circle, each rounded to a whole pixel by \<open>Math.round\<close>, so that they are within
  \<open>1/2 + 1/1000\<close> of \<open>R sin t\<close> and \<open>- R cos t\<close>; the slider is put at them. The angle
  that the \<open>mousemove\<close> handler computes, in double arithmetic, from the position
  \<open>(X + R, Y + R)\<close> of that centre is in [0, 360) and within 2 degrees of \<open>a\<close>, counted
  around the circle. It is not \<open>a\<close> up to the rounding of floating point numbers: at
  \<open>a = 1\<close> the offsets are \<open>(0, -27)\<close> and the angle computed back is at most \<open>1/1000\<close>.
\<close>

theorem round_trip_bound:
  "accurate p \<Longrightarrow> 0 \<le> a \<Longrightarrow> a < 360 \<Longrightarrow>
     (let th = a * pi / 180;
          X = real_of_int (fst (sliderXY p a));
          Y = real_of_int (snd (sliderXY p a));
          s' = positionSlider p a s;
          a' = angleFor p (X + ORBIT_RADIUS, Y + ORBIT_RADIUS)
      in sliderLeft s' = fl (fl (X + ORBIT_RADIUS) - fl (sliderWidth p / 2)) \<and>
         sliderTop s' = fl (fl (Y + ORBIT_RADIUS) - fl (sliderHeight p / 2)) \<and>
         \<bar>X - ORBIT_RADIUS * sin th\<bar> \<le> 1 / 2 + 1 / 1000 \<and>
         \<bar>Y - ORBIT_RADIUS * - cos th\<bar> \<le> 1 / 2 + 1 / 1000 \<and>
         0 \<le> a' \<and> a' < 360 \<and>
         (\<bar>a' - a\<bar> \<le> 2 \<or> 358 \<le> \<bar>a' - a\<bar>)) \<and>
     sliderXY p 1 = (0, - 27) \<and>
     0 \<le> angleFor p (0 + ORBIT_RADIUS, - 27 + ORBIT_RADIUS) \<and>
     angleFor p (0 + ORBIT_RADIUS, - 27 + ORBIT_RADIUS) \<le> 1 / 1000"
proof -
  assume acc: "accurate p" and a: "0 \<le> a" "a < 360"
  define th where "th = a * pi / 180"
  define X where "X = real_of_int (fst (sliderXY p a))"
  define Y where "Y = real_of_int (snd (sliderXY p a))"
  define a' where "a' = angleFor p (X + ORBIT_RADIUS, Y + ORBIT_RADIUS)"
  have 1: "sliderLeft (positionSlider p a s) = fl (fl (X + ORBIT_RADIUS) - fl (sliderWidth p / 2))"
    and 2: "sliderTop (positionSlider p a s) = fl (fl (Y + ORBIT_RADIUS) - fl (sliderHeight p / 2))"
    by (simp_all add: positionSlider_fields X_def Y_def)
  have 3: "\<bar>X - ORBIT_RADIUS * sin th\<bar> \<le> 1 / 2 + 1 / 1000"
    using sliderXY_near(1)[OF acc a] by (simp add: X_def th_def ORBIT_RADIUS_def)
  have 4: "\<bar>Y - ORBIT_RADIUS * - cos th\<bar> \<le> 1 / 2 + 1 / 1000"
    using sliderXY_near(2)[OF acc a] by (simp add: Y_def th_def ORBIT_RADIUS_def)
  have 5: "0 \<le> a'" "a' < 360" unfolding a'_def using acc by (rule angleFor_range)+
  have 6: "\<bar>a' - a\<bar> \<le> 2 \<or> 358 \<le> \<bar>a' - a\<bar>"
    unfolding a'_def X_def Y_def using acc a by (rule round_trip_core)
  have 7: "sliderXY p 1 = (0, - 27)" using acc by (rule sliderXY_1)
  have 8: "0 \<le> angleFor p (0 + ORBIT_RADIUS, - 27 + ORBIT_RADIUS)"
    "angleFor p (0 + ORBIT_RADIUS, - 27 + ORBIT_RADIUS) \<le> 1 / 1000"
    using angleFor_top[OF acc] by (simp_all add: ORBIT_RADIUS_def)
  show ?thesis
    unfolding Let_def th_def[symmetric] X_def[symmetric] Y_def[symmetric] a'_def[symmetric]
    using 1 2 3 4 5 6 7 8 by blast
qed

text \<open>
  Claim C2, at the angle 30 on the example host, which is accurate: the angle computed
  back from the slider's position is within 2 degrees of 30.
\<close>

theorem round_trip_bound_witness:
  "accurate exampleHost \<and> (0::real) \<le> 30 \<and> (30::real) < 360 \<and>
   \<bar>real_of_int (fst (sliderXY exampleHost 30)) - ORBIT_RADIUS * sin (30 * pi / 180)\<bar> \<le> 1 / 2 + 1 / 1000 \<and>
   (\<bar>angleFor exampleHost (real_of_int (fst (sliderXY exampleHost 30)) + ORBIT_RADIUS,
                           real_of_int (snd (sliderXY exampleHost 30)) + ORBIT_RADIUS) - 30\<bar> \<le> 2 \<or>
    358 \<le> \<bar>angleFor exampleHost (real_of_int (fst (sliderXY exampleHost 30)) + ORBIT_RADIUS,
                           real_of_int (snd (sliderXY exampleHost 30)) + ORBIT_RADIUS) - 30\<bar>)"
proof -
  have h: "accurate exampleHost" "(0::real) \<le> 30" "(30::real) < 360"
    by (simp_all add: accurate_exampleHost)
  from round_trip_bound[OF h, of loaded, unfolded Let_def] h show ?thesis by blast
qed

text \<open>
  Claim C2 as stated fails at the angle 1, on the example host: the rounded offsets are
  \<open>(0, -27)\<close>, the slider's centre is at \<open>(27, 0)\<close>, straight above the centre of the
  circle, and the angle computed back is at most \<open>1/1000\<close>: a whole degree away from 1,
  and not by the rounding of floating point numbers.
\<close>

theorem round_trip_counterexample:
  "sliderXY exampleHost 1 = (0, - 27) \<and>
   0 \<le> angleFor exampleHost (0 + ORBIT_RADIUS, - 27 + ORBIT_RADIUS) \<and>
   angleFor exampleHost (0 + ORBIT_RADIUS, - 27 + ORBIT_RADIUS) \<le> 1 / 1000 \<and>
   999 / 1000 \<le> \<bar>angleFor exampleHost (0 + ORBIT_RADIUS, - 27 + ORBIT_RADIUS) - 1\<bar>"
proof -
  have e: "angleFor exampleHost (0 + ORBIT_RADIUS, - 27 + ORBIT_RADIUS) = angleFor exampleHost (27, 0)"
    by (simp add: ORBIT_RADIUS_def)
  note t = angleFor_top[OF accurate_exampleHost]
  have "999 / 1000 \<le> \<bar>angleFor exampleHost (27, 0) - 1\<bar>" using t by linarith
  then show ?thesis unfolding e using t sliderXY_1[OF accurate_exampleHost] by simp
qed

section \<open>The intensity control\<close>

text \<open>
  Claim C3, as amended. When \<open>parseInt\<close> reads no number from the input, the handler
  neither rejects the input nor throws: it leaves the light colour as it is, sets the
  light intensity to \<open>NaN\<close> and rebuilds the light with it. An input that starts with
  digits is not rejected either: \<open>5px\<close> is taken as 5.
\<close>

theorem intensity_input_nan:
  "parseInt v = NaN \<Longrightarrow>
     intensityOnInput v s = updateLight (s\<lparr>lightIntensity := NaN\<rparr>) \<and>
     lightIntensity (intensityOnInput v s) = NaN \<and>
     lightColor (intensityOnInput v s) = lightColor s \<and>
     light (intensityOnInput v s) = Some \<lparr>color = lightColor s, intensity = NaN\<rparr> \<and>
     lightIntensity (intensityOnInput (utf16 ''5px'') s) = Num (3 / 2)"
  by (simp add: intensity_examples) (simp add: intensityOnInput_def updateLight_def Let_def)

text \<open>
  Claim C3, at the input \<open>abc\<close>.
\<close>

theorem intensity_input_nan_witness:
  "parseInt (utf16 ''abc'') = NaN \<and>
   lightIntensity (intensityOnInput (utf16 ''abc'') loaded) = NaN \<and>
   light (intensityOnInput (utf16 ''abc'') loaded) =
     Some \<lparr>color = lightColor loaded, intensity = NaN\<rparr>"
proof -
  have h: "parseInt (utf16 ''abc'') = NaN" by (rule parseInt_examples)
  from intensity_input_nan[OF h, of loaded] h show ?thesis by blast
qed

text \<open>
  Claim C3 as stated fails at the input \<open>abc\<close>, delivered to the slider of the example
  host right after \<open>main\<close>: the intensity was 1 and becomes \<open>NaN\<close>, so the state has
  changed.
\<close>

theorem malformed_input_counterexample:
  "lightIntensity (projr (main exampleHost)) = Num 1 \<and>
   oninput (projr (main exampleHost)) = Some IntensityHandler \<and>
   lightIntensity (step exampleHost (projr (main exampleHost)) (Input (utf16 ''abc''))) = NaN \<and>
   step exampleHost (projr (main exampleHost)) (Input (utf16 ''abc'')) \<noteq> projr (main exampleHost)"
proof -
  let ?s = "projr (main exampleHost)"
  have 1: "lightIntensity ?s = Num 1" and 2: "oninput ?s = Some IntensityHandler"
    by (simp_all add: main_exampleHost)
  have 3: "lightIntensity (step exampleHost ?s (Input (utf16 ''abc''))) = NaN"
    by (simp add: 2 intensity_examples)
  have "lightIntensity (step exampleHost ?s (Input (utf16 ''abc''))) \<noteq> lightIntensity ?s"
    by (simp only: 1 3) simp
  then have 4: "step exampleHost ?s (Input (utf16 ''abc'')) \<noteq> ?s" by auto
  from 1 2 3 4 show ?thesis by blast
qed

text \<open>
  Claim C4. When the slider's value reads as the integer \<open>i\<close>, the light intensity
  becomes 1 if \<open>i = 1\<close> and otherwise the value of \<open>1 + i * 0.1\<close> in double arithmetic
  (the product rounded, then the sum rounded; \<open>0.1\<close> is the double
  \<open>3602879701896397 / 2^55\<close>), and the light is rebuilt with it. The inputs 1, 5 and
  10 give exactly 1, 1.5 and 2.
\<close>

theorem intensity_mapping:
  "(parseInt v = Num (of_int i) \<longrightarrow>
      lightIntensity (intensityOnInput v s) =
        (if i = 1 then Num 1 else Num (fl (1 + fl (of_int i * literal_0_1)))) \<and>
      light (intensityOnInput v s) =
        Some \<lparr>color = lightColor s, intensity = lightIntensity (intensityOnInput v s)\<rparr>) \<and>
   literal_0_1 = 3602879701896397 / 2 ^ 55 \<and>
   lightIntensity (intensityOnInput (utf16 ''1'') s) = Num 1 \<and>
   lightIntensity (intensityOnInput (utf16 ''5'') s) = Num (3 / 2) \<and>
   lightIntensity (intensityOnInput (utf16 ''10'') s) = Num 2"
proof -
  have 1: "lightIntensity (intensityOnInput v s) =
        (if i = 1 then Num 1 else Num (fl (1 + fl (of_int i * literal_0_1))))"
    if "parseInt v = Num (of_int i)"
    using intensity_value[OF that, of s] by simp
  have 2: "light (intensityOnInput v s) =
        Some \<lparr>color = lightColor s, intensity = lightIntensity (intensityOnInput v s)\<rparr>"
    by (rule intensityOnInput_fields)
  from 1 2 literal_0_1_value intensity_examples(1,2,3)[of s] show ?thesis by blast
qed

text \<open>
  Claim C4, at the input 7: the intensity is the double \<open>1.7000000000000002\<close>, the
  rounded sum, which is not the real number \<open>17/10\<close>.
\<close>

theorem intensity_mapping_witness:
  "parseInt (utf16 ''7'') = Num (of_int 7) \<and>
   lightIntensity (intensityOnInput (utf16 ''7'') loaded) = Num (fl (1 + fl (of_int 7 * literal_0_1))) \<and>
   lightIntensity (intensityOnInput (utf16 ''7'') loaded) = Num (7656119366529844 / 2 ^ 52) \<and>
   (7656119366529844 / 2 ^ 52 :: real) \<noteq> 17 / 10"
proof -
  have h: "parseInt (utf16 ''7'') = Num (of_int 7)" by (simp add: parseInt_examples)
  from intensity_mapping[of "utf16 ''7''" 7 loaded] h
  have "lightIntensity (intensityOnInput (utf16 ''7'') loaded) =
          (if (7::int) = 1 then Num 1 else Num (fl (1 + fl (of_int 7 * literal_0_1))))"
    by blast
  then have 1: "lightIntensity (intensityOnInput (utf16 ''7'') loaded) =
          Num (fl (1 + fl (of_int 7 * literal_0_1)))"
    by simp
  have 2: "lightIntensity (intensityOnInput (utf16 ''7'') loaded) = Num (7656119366529844 / 2 ^ 52)"
    by (rule intensity_examples)
  have 3: "(7656119366529844 / 2 ^ 52 :: real) \<noteq> 17 / 10" by simp
  from h 1 2 3 show ?thesis by blast
qed

section \<open>The light state along a run\<close>

text \<open>
  Claim C5, as amended. After \<open>main\<close> and after any sequence of events, the light
  colour is one of the band colours. The light intensity is at least 0 as long as every
  value the intensity slider delivered reads as a number from \<open>-10\<close> up.
\<close>

theorem light_state_invariant:
  "main p = Inr s0 \<Longrightarrow>
     lightColor (run p s0 es) \<in> set bandColorValues \<and>
     (list_all rangeInput es \<longrightarrow> js_nonneg (lightIntensity (run p s0 es)))"
proof -
  assume m: "main p = Inr s0"
  have c: "lightColor s0 \<in> set bandColorValues"
    using main_fields(1)[OF m] by (simp add: bandColorValues_def colorBands_def)
  have 1: "lightColor (run p s0 es) \<in> set bandColorValues"
    by (rule run_invariant[where P = "\<lambda>s. lightColor s \<in> set bandColorValues"]) (simp_all add: c step_lightColor)
  have 3: "js_nonneg (lightIntensity (run p s0 es))" if "list_all rangeInput es"
  proof (rule run_invariant[where P = "\<lambda>s. js_nonneg (lightIntensity s)"])
    show "js_nonneg (lightIntensity s0)" using main_fields(2)[OF m] by simp
  next
    fix t :: state and e
    assume "js_nonneg (lightIntensity t)" "e \<in> set es"
    then show "js_nonneg (lightIntensity (step p t e))"
      using that by (intro step_intensity) (simp_all add: list_all_iff)
  qed
  from 1 3 show ?thesis by simp
qed

text \<open>
  Claim C5, on the example host with a tick, two slider inputs and a drag.
\<close>

theorem light_state_invariant_witness:
  "main exampleHost = Inr (projr (main exampleHost)) \<and>
   list_all rangeInput
     [Tick, Input (utf16 ''5''), MouseDown, MouseMove 127 104, Input (utf16 ''0'')] \<and>
   lightColor (run exampleHost (projr (main exampleHost))
     [Tick, Input (utf16 ''5''), MouseDown, MouseMove 127 104, Input (utf16 ''0'')])
       \<in> set bandColorValues \<and>
   js_nonneg (lightIntensity (run exampleHost (projr (main exampleHost))
     [Tick, Input (utf16 ''5''), MouseDown, MouseMove 127 104, Input (utf16 ''0'')]))"
proof -
  let ?es = "[Tick, Input (utf16 ''5''), MouseDown, MouseMove 127 104, Input (utf16 ''0'')]"
  have m: "main exampleHost = Inr (projr (main exampleHost))" by (simp add: main_exampleHost)
  have r: "list_all rangeInput ?es" by (simp add: rangeInput_def parseInt_examples)
  from light_state_invariant[OF m, of ?es] m r show ?thesis by blast
qed

text \<open>
  Claim C5 as stated fails for the intensity: the slider input \<open>-20\<close> makes it
  \<open>-1\<close>, and the input \<open>abc\<close> makes it \<open>NaN\<close>, which is not at least 0 either.
\<close>

theorem negative_intensity_counterexample:
  "lightIntensity (step exampleHost (projr (main exampleHost)) (Input (utf16 ''-20''))) = Num (- 1) \<and>
   \<not> js_nonneg (lightIntensity (step exampleHost (projr (main exampleHost)) (Input (utf16 ''-20'')))) \<and>
   \<not> js_nonneg (lightIntensity (step exampleHost (projr (main exampleHost)) (Input (utf16 ''abc''))))"
proof -
  have o: "oninput (projr (main exampleHost)) = Some IntensityHandler"
    by (simp add: main_exampleHost)
  show ?thesis by (simp add: o intensity_examples)
qed

section \<open>Dragging and the timer\<close>

text \<open>
  Claim C6. A press sets \<open>mdown\<close>, a release or the pointer leaving the circle clears
  it, and neither changes anything else. While \<open>mdown\<close> is set, a pointer move computes
  the angle from the pointer's position and runs the pipeline of the timer on it: the
  angle, the slider's position and rotation, the circle's colours and the light are
  updated, and the drag goes on. While \<open>mdown\<close> is clear, a pointer move leaves the whole
  state as it is; so does a move right after a release or a leave. The timer and the
  intensity slider do not touch \<open>mdown\<close>.
\<close>

theorem drag_state_machine:
  "step p s MouseDown = s\<lparr>mdown := True\<rparr> \<and>
   step p s MouseUp = s\<lparr>mdown := False\<rparr> \<and>
   step p s MouseLeave = s\<lparr>mdown := False\<rparr> \<and>
   (mdown s \<longrightarrow>
      (let d = angleFor p (fl (x - fst (elPos s)), fl (y - snd (elPos s)));
           s' = step p s (MouseMove x y)
       in s' = setLightAndUIFromAngle d (positionSlider p d (s\<lparr>deg := d\<rparr>)) \<and>
          mdown s' \<and> deg s' = d \<and>
          sliderLeft s' =
            fl (fl (of_int (fst (sliderXY p d)) + ORBIT_RADIUS) - fl (sliderWidth p / 2)) \<and>
          sliderTop s' =
            fl (fl (of_int (snd (sliderXY p d)) + ORBIT_RADIUS) - fl (sliderHeight p / 2)) \<and>
          sliderRotate s' = d \<and>
          circleBackground s' = fst (snd (angleColors d)) \<and>
          lightColor s' = fst (angleColors d) \<and>
          light s' = Some \<lparr>color = fst (angleColors d), intensity = lightIntensity s\<rparr>)) \<and>
   (\<not> mdown s \<longrightarrow> step p s (MouseMove x y) = s) \<and>
   step p (step p s MouseUp) (MouseMove x y) = step p s MouseUp \<and>
   step p (step p s MouseLeave) (MouseMove x y) = step p s MouseLeave \<and>
   mdown (step p s Tick) = mdown s \<and> mdown (step p s (Input v)) = mdown s"
  by (simp add: onMouseMove_def Let_def setLight_fields positionSlider_fields onTick_fields
      intensityOnInput_fields split: option.split handler.split)

text \<open>
  Claim C6, on the example host: a move before any press changes nothing; after a press,
  a move to the point straight below the centre sets the angle to 180 and the light to
  the colour of the band of 180.
\<close>

theorem drag_state_machine_witness:
  "\<not> mdown (projr (main exampleHost)) \<and>
   step exampleHost (projr (main exampleHost)) (MouseMove 127 104) = projr (main exampleHost) \<and>
   mdown (step exampleHost (projr (main exampleHost)) MouseDown) \<and>
   deg (step exampleHost (step exampleHost (projr (main exampleHost)) MouseDown) (MouseMove 127 104)) = 180 \<and>
   lightColor (step exampleHost (step exampleHost (projr (main exampleHost)) MouseDown) (MouseMove 127 104)) = 0xffff00"
proof -
  let ?s = "projr (main exampleHost)"
  let ?t = "step exampleHost ?s MouseDown"
  have idle: "\<not> mdown ?s" by (simp add: main_exampleHost)
  have drag: "mdown ?t" by simp
  have el: "(fl (127 - fst (elPos ?t)), fl (104 - snd (elPos ?t))) = (27, 54)"
    by (simp add: main_exampleHost fl_numeral)
  have 1: "step exampleHost ?s (MouseMove 127 104) = ?s"
    using drag_state_machine[of exampleHost ?s 127 104] idle by blast
  have 2: "deg (step exampleHost ?t (MouseMove 127 104)) = 180 \<and>
           lightColor (step exampleHost ?t (MouseMove 127 104)) = fst (angleColors 180)"
    using drag_state_machine[of exampleHost ?t 127 104] drag
    unfolding Let_def el angleFor_bottom by blast
  have 3: "fst (angleColors 180) = 0xffff00" by (simp add: angleColors_def)
  from idle drag 1 2 3 show ?thesis by simp
qed




section \<open>A page without the intensity slider\<close>

text \<open>
  Claim C8. When the element of the intensity slider is missing,
  \<open>initIntensityControl\<close> returns normally and changes nothing; \<open>main\<close> does what it
  does on the same page with the element, except that no \<open>oninput\<close> function is set. On
  a page that has the circle, \<open>main\<close> then completes: the light is there, the render
  loop is requested, and an input event of the intensity slider changes no state, then or
  after any other events.
\<close>

theorem missing_intensity_slider:
  "\<not> hasIntensitySlider p \<Longrightarrow>
     initIntensityControl p s = Inr s \<and>
     main p = (case main (p\<lparr>hasIntensitySlider := True\<rparr>) of
                 Inl e \<Rightarrow> Inl e
               | Inr t \<Rightarrow> Inr (t\<lparr>oninput := None\<rparr>)) \<and>
     (\<forall>elP. circleOffset p = Some elP \<longrightarrow>
        (\<exists>s0. main p = Inr s0 \<and> oninput s0 = None \<and> renderRequested s0 \<and> elPos s0 = elP \<and>
              light s0 = Some \<lparr>color = 0xFFFFFF, intensity = Num 1\<rparr> \<and>
              (\<forall>es v. step p (run p s0 es) (Input v) = run p s0 es)))"
proof -
  assume a: "\<not> hasIntensitySlider p"
  have 1: "initIntensityControl p s = Inr s" using a by (simp add: initIntensityControl_def)
  have 2: "main p = (case main (p\<lparr>hasIntensitySlider := True\<rparr>) of
                 Inl e \<Rightarrow> Inl e
               | Inr t \<Rightarrow> Inr (t\<lparr>oninput := None\<rparr>))"
    using a
    by (simp add: main_def initColorControl_def initIntensityControl_def assignOnInput_def
        positionSlider_def sliderXY_def setLightAndUIFromAngle_def updateLight_def initLight_def
        Let_def createSphere_def createPlane_def initThree_def loaded_def
        split: option.split prod.split)
  have 3: "\<exists>s0. main p = Inr s0 \<and> oninput s0 = None \<and> renderRequested s0 \<and> elPos s0 = elP \<and>
              light s0 = Some \<lparr>color = 0xFFFFFF, intensity = Num 1\<rparr> \<and>
              (\<forall>es v. step p (run p s0 es) (Input v) = run p s0 es)"
    if c: "circleOffset p = Some elP" for elP
  proof -
    obtain s0 where m: "main p = Inr s0"
      using a c by (simp add: main_def initColorControl_def initIntensityControl_def)
    have o: "oninput s0 = None" using main_fields(6)[OF m] a by simp
    have "step p (run p s0 es) (Input v) = run p s0 es" for es v
      using run_oninput[of p s0 es] o by simp
    then show ?thesis using m o main_fields[OF m] c by simp
  qed
  from 1 2 3 show ?thesis by blast
qed

text \<open>
  Claim C8, on the example host without its intensity slider.
\<close>

theorem missing_intensity_slider_witness:
  "\<not> hasIntensitySlider (exampleHost\<lparr>hasIntensitySlider := False\<rparr>) \<and>
   circleOffset (exampleHost\<lparr>hasIntensitySlider := False\<rparr>) = Some (100, 50) \<and>
   initIntensityControl (exampleHost\<lparr>hasIntensitySlider := False\<rparr>) loaded = Inr loaded \<and>
   main (exampleHost\<lparr>hasIntensitySlider := False\<rparr>) =
     Inr ((projr (main exampleHost))\<lparr>oninput := None\<rparr>)"
  using missing_intensity_slider[of "exampleHost\<lparr>hasIntensitySlider := False\<rparr>" loaded]
  by (simp add: exampleHost_def main_exampleHost[unfolded exampleHost_def])

end
